theory Spec2Isabelle
  imports Complex_Main "HOL-Library.Sublist"
begin

section \<open>The inventory store: data model\<close>

text \<open>
  The Go package \<open>store\<close> keeps products, carts and orders in a Postgres database and
  reserves stock when an item is added to a cart. The model below has three layers:
  the tables of the schema, the calls the Go code makes on its database handle, and the
  Go functions themselves, one definition per function, branch by branch.

  Columns of SQL type INTEGER and BIGINT and Go values of type \<open>int\<close> and \<open>int64\<close> are
  modelled as \<open>int\<close>: the Go code compares them but never computes with them, and the
  store computes without wrap-around. Values of type \<open>float64\<close> are kept abstract (the
  type variable \<open>'f\<close>); the arithmetic on them is a parameter.
\<close>

subsection \<open>Errors\<close>

text \<open>
  \<open>ErrorsNew m\<close> is \<open>errors.New(m)\<close>, \<open>ErrNoRows\<close> is \<open>sql.ErrNoRows\<close>, and \<open>StoreError\<close>
  stands for any error raised by the driver or the database server.
\<close>

datatype error = ErrorsNew string | ErrInsufficientStock | ErrNoRows | StoreError

subsection \<open>Rows and tables (migrations.sql)\<close>

record 'f products_row =
  p_id :: int
  p_name :: string
  p_description :: "string option"
  p_price :: 'f
  p_stock :: int

record cart_items_row =
  ci_cart_id :: string
  ci_product_id :: int
  ci_quantity :: int

record 'f orders_row =
  o_id :: int
  o_user_id :: string
  o_total :: 'f
  o_created_at :: int

record 'f order_items_row =
  oi_order_id :: int
  oi_product_id :: int
  oi_quantity :: int
  oi_price :: 'f

text \<open>
  A table is the list of its rows. Table \<open>carts\<close> is the list of its \<open>user_id\<close> values;
  its column \<open>created_at\<close> is never read by the Go code and is left out.
\<close>

record 'f Tables =
  products :: "'f products_row list"
  carts :: "string list"
  cart_items :: "cart_items_row list"
  orders :: "'f orders_row list"
  order_items :: "'f order_items_row list"

subsection \<open>Go structs returned by Checkout\<close>

record 'f OrderRow =
  ID :: int
  UserID :: string
  Total :: 'f
  CreatedAt :: int

record 'f OrderItemRow =
  ProductID :: int
  Quantity :: int
  Price :: 'f

subsection \<open>The store and its environment\<close>

text \<open>
  Every call on the database handle, and every lock and unlock of a per-user mutex, is
  appended to \<open>calls\<close>. A call of \<open>rows.Next()\<close> is logged as \<open>EvNext\<close>, and as \<open>EvNextErr\<close>
  when it failed to fetch: it then returns false like the end of the rows, and the error
  stays in \<open>rows.Err()\<close>. The sequences behind the BIGSERIAL columns are not part of
  \<open>tables\<close>: a rollback does not reset them.
\<close>

datatype event =
  EvLock string | EvUnlock string
  | EvBegin | EvExec | EvQuery | EvNext | EvNextErr | EvScan | EvPrepare | EvCommit
  | EvRollback

record 'f PostgresStore =
  tables :: "'f Tables"
  products_id_seq :: int
  orders_id_seq :: int
  locks :: "string list"
  calls :: "event list"

text \<open>
  What the Go code takes from outside: whether the n-th call fails in the store, the
  store's clock at the n-th call, and the arithmetic of \<open>float64\<close>.
\<close>

record 'f env =
  fails :: "nat \<Rightarrow> bool"
  clock :: "nat \<Rightarrow> int"
  float64_zero :: 'f
  float64_add :: "'f \<Rightarrow> 'f \<Rightarrow> 'f"
  float64_mul :: "'f \<Rightarrow> 'f \<Rightarrow> 'f"
  float64_of_int :: "int \<Rightarrow> 'f"

definition no_faults :: "'f env \<Rightarrow> bool" where
  "no_faults env = (\<forall>n. \<not> fails env n)"

section \<open>Calls on the database handle\<close>

definition record_call :: "event \<Rightarrow> 'f PostgresStore \<Rightarrow> 'f PostgresStore" where
  "record_call e s = s\<lparr>calls := calls s @ [e]\<rparr>"

definition failing :: "'f env \<Rightarrow> 'f PostgresStore \<Rightarrow> bool" where
  "failing env s = fails env (length (calls s))"

text \<open>
  \<open>lockForUser\<close>: the mutex of the user is looked up in the registry and created when
  absent, then locked. The caller defers the unlock. The model is sequential, so a lock
  is always free when it is taken.
\<close>

definition lockForUser :: "string \<Rightarrow> 'f PostgresStore \<Rightarrow> 'f PostgresStore" where
  "lockForUser userID s =
     (if userID \<in> set (locks s) then record_call (EvLock userID) s
      else record_call (EvLock userID) (s\<lparr>locks := locks s @ [userID]\<rparr>))"

definition unlock :: "string \<Rightarrow> 'a \<times> 'f PostgresStore \<Rightarrow> 'a \<times> 'f PostgresStore" where
  "unlock userID r = (fst r, record_call (EvUnlock userID) (snd r))"

text \<open>
  A transaction works on its own copy of the tables, the value \<open>tx\<close> that \<open>Begin\<close> returns;
  \<open>Commit\<close> installs the copy and \<open>Rollback\<close> drops it. A commit that fails installs
  nothing. Each call fails with \<open>StoreError\<close> when the environment says so. In the Go
  functions every path after \<open>Begin\<close> calls \<open>tx.Rollback()\<close> or commits and sets
  \<open>rolledBack\<close>, so the deferred rollback never runs; the deferred \<open>unlock()\<close> is the
  function \<open>unlock\<close> around the body.
\<close>

definition Begin :: "'f env \<Rightarrow> 'f PostgresStore \<Rightarrow> (error + 'f Tables) \<times> 'f PostgresStore" where
  "Begin env s =
     (if failing env s then (Inl StoreError, record_call EvBegin s)
      else (Inr (tables s), record_call EvBegin s))"

definition Exec :: "'f env \<Rightarrow> ('f Tables \<Rightarrow> 'f Tables) \<Rightarrow> 'f Tables \<Rightarrow> 'f PostgresStore
    \<Rightarrow> (error + 'f Tables) \<times> 'f PostgresStore" where
  "Exec env stmt tx s =
     (if failing env s then (Inl StoreError, record_call EvExec s)
      else (Inr (stmt tx), record_call EvExec s))"

definition QueryRow :: "'f env \<Rightarrow> ('f Tables \<Rightarrow> 'a option) \<Rightarrow> 'f Tables \<Rightarrow> 'f PostgresStore
    \<Rightarrow> (error + 'a) \<times> 'f PostgresStore" where
  "QueryRow env query tx s =
     (if failing env s then (Inl StoreError, record_call EvQuery s)
      else case query tx of
             None \<Rightarrow> (Inl ErrNoRows, record_call EvQuery s)
           | Some v \<Rightarrow> (Inr v, record_call EvQuery s))"

definition Query :: "'f env \<Rightarrow> ('f Tables \<Rightarrow> 'a list) \<Rightarrow> 'f Tables \<Rightarrow> 'f PostgresStore
    \<Rightarrow> (error + 'a list) \<times> 'f PostgresStore" where
  "Query env query tx s =
     (if failing env s then (Inl StoreError, record_call EvQuery s)
      else (Inr (query tx), record_call EvQuery s))"

definition Prepare :: "'f env \<Rightarrow> 'f PostgresStore \<Rightarrow> error option \<times> 'f PostgresStore" where
  "Prepare env s =
     (if failing env s then (Some StoreError, record_call EvPrepare s)
      else (None, record_call EvPrepare s))"

definition Commit :: "'f env \<Rightarrow> 'f Tables \<Rightarrow> 'f PostgresStore \<Rightarrow> error option \<times> 'f PostgresStore" where
  "Commit env tx s =
     (if failing env s then (Some StoreError, record_call EvCommit s)
      else (None, record_call EvCommit (s\<lparr>tables := tx\<rparr>)))"

definition Rollback :: "'f PostgresStore \<Rightarrow> 'f PostgresStore" where
  "Rollback s = record_call EvRollback s"

section \<open>The SQL statements\<close>

text \<open>\<open>INSERT INTO carts (user_id) VALUES ($1) ON CONFLICT (user_id) DO NOTHING\<close>\<close>

definition insert_carts :: "string \<Rightarrow> 'f Tables \<Rightarrow> 'f Tables" where
  "insert_carts userID t =
     (if userID \<in> set (carts t) then t else t\<lparr>carts := carts t @ [userID]\<rparr>)"

text \<open>\<open>SELECT stock FROM products WHERE id = $1\<close> (with or without \<open>FOR UPDATE\<close>)\<close>

definition select_stock :: "int \<Rightarrow> 'f Tables \<Rightarrow> int option" where
  "select_stock productID t =
     map_option p_stock (find (\<lambda>p. p_id p = productID) (products t))"

text \<open>
  \<open>INSERT INTO cart_items (cart_id, product_id, quantity) VALUES ($1, $2, $3)
  ON CONFLICT (cart_id, product_id)
  DO UPDATE SET quantity = cart_items.quantity + EXCLUDED.quantity\<close>
\<close>

definition cart_key :: "string \<Rightarrow> int \<Rightarrow> cart_items_row \<Rightarrow> bool" where
  "cart_key userID productID ci = (ci_cart_id ci = userID \<and> ci_product_id ci = productID)"

definition upsert_cart_items :: "string \<Rightarrow> int \<Rightarrow> int \<Rightarrow> 'f Tables \<Rightarrow> 'f Tables" where
  "upsert_cart_items userID productID qty t =
     (if list_ex (cart_key userID productID) (cart_items t)
      then t\<lparr>cart_items :=
               map (\<lambda>ci. if cart_key userID productID ci
                          then ci\<lparr>ci_quantity := ci_quantity ci + qty\<rparr> else ci)
                   (cart_items t)\<rparr>
      else t\<lparr>cart_items := cart_items t @
               [\<lparr>ci_cart_id = userID, ci_product_id = productID, ci_quantity = qty\<rparr>]\<rparr>)"

text \<open>\<open>UPDATE products SET stock = stock + $1 WHERE id = $2\<close>; the decrement of
  \<open>AddToCart\<close> is the same statement with \<open>- qty\<close>.\<close>

definition update_stock_add :: "int \<Rightarrow> int \<Rightarrow> 'f Tables \<Rightarrow> 'f Tables" where
  "update_stock_add qty productID t =
     t\<lparr>products :=
         map (\<lambda>p. if p_id p = productID then p\<lparr>p_stock := p_stock p + qty\<rparr> else p)
             (products t)\<rparr>"

text \<open>\<open>SELECT quantity FROM cart_items WHERE cart_id=$1 AND product_id=$2\<close>\<close>

definition select_quantity :: "string \<Rightarrow> int \<Rightarrow> 'f Tables \<Rightarrow> int option" where
  "select_quantity userID productID t =
     map_option ci_quantity (find (cart_key userID productID) (cart_items t))"

text \<open>\<open>DELETE FROM cart_items WHERE cart_id=$1 AND product_id=$2\<close>\<close>

definition delete_cart_item :: "string \<Rightarrow> int \<Rightarrow> 'f Tables \<Rightarrow> 'f Tables" where
  "delete_cart_item userID productID t =
     t\<lparr>cart_items := filter (\<lambda>ci. \<not> cart_key userID productID ci) (cart_items t)\<rparr>"

text \<open>
  \<open>SELECT ci.product_id, ci.quantity, p.price FROM cart_items ci
  JOIN products p ON p.id = ci.product_id WHERE ci.cart_id = $1 ORDER BY p.id\<close>
\<close>

definition select_cart_join :: "string \<Rightarrow> 'f Tables \<Rightarrow> (int \<times> int \<times> 'f) list" where
  "select_cart_join userID t =
     sort_key fst
       (concat (map (\<lambda>ci. map (\<lambda>p. (ci_product_id ci, ci_quantity ci, p_price p))
                              (filter (\<lambda>p. p_id p = ci_product_id ci) (products t)))
                    (filter (\<lambda>ci. ci_cart_id ci = userID) (cart_items t))))"

text \<open>\<open>INSERT INTO order_items (order_id, product_id, quantity, price) VALUES ($1,$2,$3,$4)\<close>\<close>

definition insert_order_items :: "int \<Rightarrow> 'f OrderItemRow \<Rightarrow> 'f Tables \<Rightarrow> 'f Tables" where
  "insert_order_items orderID it t =
     t\<lparr>order_items := order_items t @
         [\<lparr>oi_order_id = orderID, oi_product_id = ProductID it,
           oi_quantity = Quantity it, oi_price = Price it\<rparr>]\<rparr>"

text \<open>\<open>DELETE FROM cart_items WHERE cart_id = $1\<close>\<close>

definition delete_cart_items :: "string \<Rightarrow> 'f Tables \<Rightarrow> 'f Tables" where
  "delete_cart_items userID t =
     t\<lparr>cart_items := filter (\<lambda>ci. ci_cart_id ci \<noteq> userID) (cart_items t)\<rparr>"

text \<open>\<open>DELETE FROM carts WHERE user_id = $1\<close>; the foreign key of \<open>cart_items\<close> is
  declared \<open>ON DELETE CASCADE\<close>.\<close>

definition delete_carts :: "string \<Rightarrow> 'f Tables \<Rightarrow> 'f Tables" where
  "delete_carts userID t =
     t\<lparr>carts := filter (\<lambda>u. u \<noteq> userID) (carts t),
       cart_items := filter (\<lambda>ci. ci_cart_id ci \<noteq> userID) (cart_items t)\<rparr>"

section \<open>The Go functions of the store\<close>

subsection \<open>AddToCart\<close>

definition AddToCart :: "'f env \<Rightarrow> string \<Rightarrow> int \<Rightarrow> int \<Rightarrow> 'f PostgresStore
    \<Rightarrow> error option \<times> 'f PostgresStore" where
  "AddToCart env userID productID qty s =
     (if qty \<le> 0 then (Some (ErrorsNew ''quantity must be > 0''), s)
      else unlock userID
       (case Begin env (lockForUser userID s) of
          (Inl err, s) \<Rightarrow> (Some err, s)
        | (Inr tx, s) \<Rightarrow>
       (case Exec env (insert_carts userID) tx s of
          (Inl err, s) \<Rightarrow> (Some err, Rollback s)
        | (Inr tx, s) \<Rightarrow>
       (case QueryRow env (select_stock productID) tx s of
          (Inl err, s) \<Rightarrow> (Some err, Rollback s)
        | (Inr stock, s) \<Rightarrow>
       if stock < qty then (Some ErrInsufficientStock, Rollback s)
       else
       (case Exec env (upsert_cart_items userID productID qty) tx s of
          (Inl err, s) \<Rightarrow> (Some err, Rollback s)
        | (Inr tx, s) \<Rightarrow>
       (case Exec env (update_stock_add (- qty) productID) tx s of
          (Inl err, s) \<Rightarrow> (Some err, Rollback s)
        | (Inr tx, s) \<Rightarrow>
       (case Commit env tx s of
          (Some err, s) \<Rightarrow> (Some err, Rollback s)
        | (None, s) \<Rightarrow> (None, s))))))))"

subsection \<open>RemoveFromCart\<close>

definition RemoveFromCart :: "'f env \<Rightarrow> string \<Rightarrow> int \<Rightarrow> 'f PostgresStore
    \<Rightarrow> error option \<times> 'f PostgresStore" where
  "RemoveFromCart env userID productID s =
     unlock userID
       (case Begin env (lockForUser userID s) of
          (Inl err, s) \<Rightarrow> (Some err, s)
        | (Inr tx, s) \<Rightarrow>
       (case QueryRow env (select_quantity userID productID) tx s of
          (Inl err, s) \<Rightarrow>
            (if err = ErrNoRows then (Some ErrNoRows, Rollback s) else (Some err, Rollback s))
        | (Inr qty, s) \<Rightarrow>
       (case Exec env (delete_cart_item userID productID) tx s of
          (Inl err, s) \<Rightarrow> (Some err, Rollback s)
        | (Inr tx, s) \<Rightarrow>
       (case Exec env (update_stock_add qty productID) tx s of
          (Inl err, s) \<Rightarrow> (Some err, Rollback s)
        | (Inr tx, s) \<Rightarrow>
       (case Commit env tx s of
          (Some err, s) \<Rightarrow> (Some err, Rollback s)
        | (None, s) \<Rightarrow> (None, s))))))"

subsection \<open>Checkout\<close>

text \<open>
  The loop \<open>for rows.Next() { ... }\<close> over the rows the query has selected: each row is
  scanned into an \<open>OrderItemRow\<close>, appended to \<open>items\<close>, and
  \<open>total += float64(it.Quantity) * it.Price\<close> (\<open>add_line\<close>). A failing \<open>Scan\<close> returns its
  error with the items read so far. A failing \<open>rows.Next()\<close> ends the loop like the end of
  the rows does: \<open>Checkout\<close> never reads \<open>rows.Err()\<close> and carries on with the items read
  so far.
\<close>

definition Scan :: "int \<times> int \<times> 'f \<Rightarrow> 'f OrderItemRow" where
  "Scan r = \<lparr>ProductID = fst r, Quantity = fst (snd r), Price = snd (snd r)\<rparr>"

definition add_line :: "'f env \<Rightarrow> 'f \<Rightarrow> 'f OrderItemRow \<Rightarrow> 'f" where
  "add_line env tot it =
     float64_add env tot (float64_mul env (float64_of_int env (Quantity it)) (Price it))"

fun scan_rows :: "'f env \<Rightarrow> (int \<times> int \<times> 'f) list \<Rightarrow> 'f OrderItemRow list \<Rightarrow> 'f
    \<Rightarrow> 'f PostgresStore \<Rightarrow> error option \<times> 'f OrderItemRow list \<times> 'f \<times> 'f PostgresStore" where
  "scan_rows env [] items tot s =
     (if failing env s then (None, items, tot, record_call EvNextErr s)
      else (None, items, tot, record_call EvNext s))"
| "scan_rows env (r # rows) items tot s =
     (if failing env s then (None, items, tot, record_call EvNextErr s)
      else
        let s = record_call EvNext s
        in if failing env s then (Some StoreError, items, tot, record_call EvScan s)
           else
             let it = Scan r
             in scan_rows env rows (items @ [it]) (add_line env tot it)
                  (record_call EvScan s))"

text \<open>\<open>INSERT INTO orders (user_id, total) VALUES ($1,$2) RETURNING id, created_at\<close>, run
  with \<open>QueryRow\<close> and scanned into \<open>orderID\<close> and \<open>createdAt\<close>.\<close>

definition insert_orders :: "'f env \<Rightarrow> string \<Rightarrow> 'f \<Rightarrow> 'f Tables \<Rightarrow> 'f PostgresStore
    \<Rightarrow> (error + int \<times> int \<times> 'f Tables) \<times> 'f PostgresStore" where
  "insert_orders env userID tot tx s =
     (if failing env s then (Inl StoreError, record_call EvQuery s)
      else
        let orderID = orders_id_seq s + 1;
            createdAt = clock env (length (calls s))
        in (Inr (orderID, createdAt,
                 tx\<lparr>orders := orders tx @
                      [\<lparr>o_id = orderID, o_user_id = userID, o_total = tot,
                        o_created_at = createdAt\<rparr>]\<rparr>),
            record_call EvQuery (s\<lparr>orders_id_seq := orderID\<rparr>)))"

text \<open>The loop \<open>for _, it := range items\<close> over \<open>stmt.Exec\<close>.\<close>

fun exec_order_items :: "'f env \<Rightarrow> int \<Rightarrow> 'f OrderItemRow list \<Rightarrow> 'f Tables \<Rightarrow> 'f PostgresStore
    \<Rightarrow> (error + 'f Tables) \<times> 'f PostgresStore" where
  "exec_order_items env orderID [] tx s = (Inr tx, s)"
| "exec_order_items env orderID (it # items) tx s =
     (case Exec env (insert_order_items orderID it) tx s of
        (Inl err, s) \<Rightarrow> (Inl err, s)
      | (Inr tx, s) \<Rightarrow> exec_order_items env orderID items tx s)"

definition zero_OrderRow :: "'f env \<Rightarrow> 'f OrderRow" where
  "zero_OrderRow env = \<lparr>ID = 0, UserID = [], Total = float64_zero env, CreatedAt = 0\<rparr>"

definition Checkout :: "'f env \<Rightarrow> string \<Rightarrow> 'f PostgresStore
    \<Rightarrow> ('f OrderRow \<times> 'f OrderItemRow list \<times> error option) \<times> 'f PostgresStore" where
  "Checkout env userID s =
     (let order = zero_OrderRow env in
      unlock userID
       (case Begin env (lockForUser userID s) of
          (Inl err, s) \<Rightarrow> ((order, [], Some err), s)
        | (Inr tx, s) \<Rightarrow>
       (case Query env (select_cart_join userID) tx s of
          (Inl err, s) \<Rightarrow> ((order, [], Some err), Rollback s)
        | (Inr rows, s) \<Rightarrow>
       (case scan_rows env rows [] (float64_zero env) s of
          (Some err, items, tot, s) \<Rightarrow> ((order, items, Some err), Rollback s)
        | (None, items, tot, s) \<Rightarrow>
       if length items = 0
       then ((order, items, Some (ErrorsNew ''cart empty'')), Rollback s)
       else
       (case insert_orders env userID tot tx s of
          (Inl err, s) \<Rightarrow> ((order, items, Some err), Rollback s)
        | (Inr (orderID, createdAt, tx), s) \<Rightarrow>
       (case Prepare env s of
          (Some err, s) \<Rightarrow> ((order, items, Some err), Rollback s)
        | (None, s) \<Rightarrow>
       (case exec_order_items env orderID items tx s of
          (Inl err, s) \<Rightarrow> ((order, items, Some err), Rollback s)
        | (Inr tx, s) \<Rightarrow>
       (case Exec env (delete_cart_items userID) tx s of
          (Inl err, s) \<Rightarrow> ((order, items, Some err), Rollback s)
        | (Inr tx, s) \<Rightarrow>
       (case Exec env (delete_carts userID) tx s of
          (Inl err, s) \<Rightarrow> ((order, items, Some err), Rollback s)
        | (Inr tx, s) \<Rightarrow>
       (case Commit env tx s of
          (Some err, s) \<Rightarrow> ((order, items, Some err), Rollback s)
        | (None, s) \<Rightarrow>
            ((\<lparr>ID = orderID, UserID = userID, Total = tot, CreatedAt = createdAt\<rparr>,
              items, None), s)))))))))))"

subsection \<open>CreateProduct, UpdateStock\<close>

text \<open>
  \<open>INSERT INTO products (name, description, price) VALUES ($1, $2, $3) RETURNING id\<close>, on
  the handle itself (no transaction). The new row takes the next value of the sequence
  and the default stock 0. A price the CHECK constraint refuses is a failure of the call.
\<close>

definition CreateProduct :: "'f env \<Rightarrow> string \<Rightarrow> string \<Rightarrow> 'f \<Rightarrow> 'f PostgresStore
    \<Rightarrow> (int \<times> error option) \<times> 'f PostgresStore" where
  "CreateProduct env name desc price s =
     (if failing env s then ((0, Some StoreError), record_call EvQuery s)
      else
        let newID = products_id_seq s + 1;
            t = tables s
        in ((newID, None),
            record_call EvQuery
              (s\<lparr>products_id_seq := newID,
                 tables := t\<lparr>products := products t @
                   [\<lparr>p_id = newID, p_name = name, p_description = Some desc,
                     p_price = price, p_stock = 0\<rparr>]\<rparr>\<rparr>)))"

text \<open>\<open>UPDATE products SET stock=$1 WHERE id=$2\<close>, then \<open>RowsAffected\<close>.\<close>

definition UpdateStock :: "'f env \<Rightarrow> int \<Rightarrow> int \<Rightarrow> 'f PostgresStore
    \<Rightarrow> error option \<times> 'f PostgresStore" where
  "UpdateStock env productID newStock s =
     (if newStock < 0 then (Some (ErrorsNew ''stock cannot be negative''), s)
      else if failing env s then (Some StoreError, record_call EvExec s)
      else
        let t = tables s;
            ra = length (filter (\<lambda>p. p_id p = productID) (products t));
            s' = record_call EvExec
                   (s\<lparr>tables := t\<lparr>products :=
                        map (\<lambda>p. if p_id p = productID then p\<lparr>p_stock := newStock\<rparr> else p)
                            (products t)\<rparr>\<rparr>)
        in if ra = 0 then (Some ErrNoRows, s') else (None, s'))"

section \<open>The service layer\<close>

text \<open>\<open>Service.AddToCart\<close> validates its arguments and forwards to the store.\<close>

definition Service_AddToCart :: "'f env \<Rightarrow> string \<Rightarrow> int \<Rightarrow> int \<Rightarrow> 'f PostgresStore
    \<Rightarrow> error option \<times> 'f PostgresStore" where
  "Service_AddToCart env userID productID qty s =
     (if userID = [] then (Some (ErrorsNew ''user_id required''), s)
      else if qty \<le> 0 then (Some (ErrorsNew ''quantity must be > 0''), s)
      else AddToCart env userID productID qty s)"

section \<open>Sequences of calls\<close>

datatype 'f request =
  ReqCreateProduct string string 'f
  | ReqAddToCart string int int
  | ReqRemoveFromCart string int
  | ReqCheckout string
  | ReqUpdateStock int int

fun step :: "'f env \<Rightarrow> 'f request \<Rightarrow> 'f PostgresStore \<Rightarrow> 'f PostgresStore" where
  "step env (ReqCreateProduct name desc price) s = snd (CreateProduct env name desc price s)"
| "step env (ReqAddToCart userID productID qty) s = snd (AddToCart env userID productID qty s)"
| "step env (ReqRemoveFromCart userID productID) s = snd (RemoveFromCart env userID productID s)"
| "step env (ReqCheckout userID) s = snd (Checkout env userID s)"
| "step env (ReqUpdateStock productID newStock) s = snd (UpdateStock env productID newStock s)"

fun run :: "'f env \<Rightarrow> 'f request list \<Rightarrow> 'f PostgresStore \<Rightarrow> 'f PostgresStore" where
  "run env [] s = s"
| "run env (r # rs) s = run env rs (step env r s)"

fun cart_request :: "'f request \<Rightarrow> bool" where
  "cart_request (ReqAddToCart userID productID qty) = True"
| "cart_request (ReqRemoveFromCart userID productID) = True"
| "cart_request (ReqCheckout userID) = True"
| "cart_request _ = False"

section \<open>Observations on the tables\<close>

text \<open>What a committed transaction of each function has done to the tables: the
  statements of the function, in its order.\<close>

definition AddToCart_tables :: "string \<Rightarrow> int \<Rightarrow> int \<Rightarrow> 'f Tables \<Rightarrow> 'f Tables" where
  "AddToCart_tables userID productID qty t =
     update_stock_add (- qty) productID
       (upsert_cart_items userID productID qty (insert_carts userID t))"

definition RemoveFromCart_tables :: "string \<Rightarrow> int \<Rightarrow> int \<Rightarrow> 'f Tables \<Rightarrow> 'f Tables" where
  "RemoveFromCart_tables userID productID qty t =
     update_stock_add qty productID (delete_cart_item userID productID t)"

definition Checkout_tables :: "string \<Rightarrow> 'f OrderRow \<Rightarrow> 'f OrderItemRow list \<Rightarrow> 'f Tables
    \<Rightarrow> 'f Tables" where
  "Checkout_tables userID order items t =
     delete_carts userID
       (delete_cart_items userID
         (foldl (\<lambda>tx it. insert_order_items (ID order) it tx)
            (t\<lparr>orders := orders t @
                 [\<lparr>o_id = ID order, o_user_id = userID, o_total = Total order,
                   o_created_at = CreatedAt order\<rparr>]\<rparr>)
            items))"

text \<open>The cart lines of a user (the rows \<open>GetCart\<close> selects), the price of a product,
  and the order item row written for an item.\<close>

definition cart_lines :: "string \<Rightarrow> 'f Tables \<Rightarrow> cart_items_row list" where
  "cart_lines userID t = filter (\<lambda>ci. ci_cart_id ci = userID) (cart_items t)"

definition select_price :: "int \<Rightarrow> 'f Tables \<Rightarrow> 'f option" where
  "select_price productID t =
     map_option p_price (find (\<lambda>p. p_id p = productID) (products t))"

definition order_item_of :: "int \<Rightarrow> 'f OrderItemRow \<Rightarrow> 'f order_items_row" where
  "order_item_of orderID it =
     \<lparr>oi_order_id = orderID, oi_product_id = ProductID it,
      oi_quantity = Quantity it, oi_price = Price it\<rparr>"

text \<open>The quantity reserved for a product in cart items, and the quantity of it in
  order items.\<close>

definition reserved :: "'f Tables \<Rightarrow> int \<Rightarrow> int" where
  "reserved t productID =
     sum_list (map ci_quantity (filter (\<lambda>ci. ci_product_id ci = productID) (cart_items t)))"

definition ordered :: "'f Tables \<Rightarrow> int \<Rightarrow> int" where
  "ordered t productID =
     sum_list (map oi_quantity (filter (\<lambda>oi. oi_product_id oi = productID) (order_items t)))"

text \<open>The constraints of the schema that the theorems rely on: the primary keys of
  \<open>products\<close> and \<open>cart_items\<close> and the foreign key from \<open>cart_items\<close> to \<open>products\<close>.\<close>

definition schema_ok :: "'f Tables \<Rightarrow> bool" where
  "schema_ok t =
     (distinct (map p_id (products t)) \<and>
      distinct (map (\<lambda>ci. (ci_cart_id ci, ci_product_id ci)) (cart_items t)) \<and>
      list_all (\<lambda>ci. list_ex (\<lambda>p. p_id p = ci_product_id ci) (products t)) (cart_items t))"

text \<open>With the sequence of \<open>products.id\<close>: no product has an id beyond the last one issued.\<close>

definition store_ok :: "'f PostgresStore \<Rightarrow> bool" where
  "store_ok s =
     (schema_ok (tables s) \<and>
      list_all (\<lambda>p. p_id p \<le> products_id_seq s) (products (tables s)))"

text \<open>A store without failures, exact rational arithmetic for prices, and a small shop
  for the concrete instances below.\<close>

definition env0 :: "rat env" where
  "env0 = \<lparr>fails = (\<lambda>n. False), clock = (\<lambda>n. int n), float64_zero = 0,
           float64_add = (+), float64_mul = (*), float64_of_int = of_int\<rparr>"

definition shop :: "rat PostgresStore" where
  "shop = \<lparr>tables = \<lparr>products =
               [\<lparr>p_id = 1, p_name = ''speaker'', p_description = None, p_price = 10, p_stock = 5\<rparr>,
                \<lparr>p_id = 2, p_name = ''laptop'', p_description = None, p_price = 20, p_stock = 3\<rparr>],
             carts = [], cart_items = [], orders = [], order_items = []\<rparr>,
           products_id_seq = 2, orders_id_seq = 0, locks = [], calls = []\<rparr>"

definition shop_with_cart :: "rat PostgresStore" where
  "shop_with_cart = run env0 [ReqAddToCart ''u1'' 2 2, ReqAddToCart ''u1'' 1 1] shop"

text \<open>An environment in which the call numbered 21 fails: on \<open>shop_with_cart\<close> that is
  the second \<open>rows.Next()\<close> of a checkout.\<close>

definition env_next_fails :: "rat env" where
  "env_next_fails = env0\<lparr>fails := (\<lambda>n. n = 21)\<rparr>"

section \<open>Basic facts\<close>

lemma record_call_simps [simp]:
  "tables (record_call e s) = tables s"
  "products_id_seq (record_call e s) = products_id_seq s"
  "orders_id_seq (record_call e s) = orders_id_seq s"
  "locks (record_call e s) = locks s"
  "calls (record_call e s) = calls s @ [e]"
  by (simp_all add: record_call_def)

lemma lockForUser_simps [simp]:
  "tables (lockForUser u s) = tables s"
  "products_id_seq (lockForUser u s) = products_id_seq s"
  "orders_id_seq (lockForUser u s) = orders_id_seq s"
  "calls (lockForUser u s) = calls s @ [EvLock u]"
  by (simp_all add: lockForUser_def)

lemma Rollback_simps [simp]:
  "tables (Rollback s) = tables s"
  "products_id_seq (Rollback s) = products_id_seq s"
  "orders_id_seq (Rollback s) = orders_id_seq s"
  "locks (Rollback s) = locks s"
  "calls (Rollback s) = calls s @ [EvRollback]"
  by (simp_all add: Rollback_def)

lemma unlock_simps [simp]:
  "fst (unlock u r) = fst r"
  "tables (snd (unlock u r)) = tables (snd r)"
  "products_id_seq (snd (unlock u r)) = products_id_seq (snd r)"
  "orders_id_seq (snd (unlock u r)) = orders_id_seq (snd r)"
  "locks (snd (unlock u r)) = locks (snd r)"
  "calls (snd (unlock u r)) = calls (snd r) @ [EvUnlock u]"
  by (simp_all add: unlock_def)

lemma Begin_cases:
  assumes "Begin env s = (r, s')"
  shows "s' = record_call EvBegin s \<and> (r = Inl StoreError \<or> r = Inr (tables s))"
  using assms by (auto simp: Begin_def split: if_splits)

lemma Exec_cases:
  assumes "Exec env stmt tx s = (r, s')"
  shows "s' = record_call EvExec s \<and> (r = Inl StoreError \<or> r = Inr (stmt tx))"
  using assms by (auto simp: Exec_def split: if_splits)

lemma QueryRow_cases:
  assumes "QueryRow env query tx s = (r, s')"
  shows "s' = record_call EvQuery s \<and>
         (r = Inl StoreError \<or> (r = Inl ErrNoRows \<and> query tx = None) \<or> (\<exists>v. r = Inr v \<and> query tx = Some v))"
  using assms by (auto simp: QueryRow_def split: if_splits option.splits)

lemma Commit_cases:
  assumes "Commit env tx s = (r, s')"
  shows "(r = Some StoreError \<and> s' = record_call EvCommit s) \<or>
         (r = None \<and> s' = record_call EvCommit (s\<lparr>tables := tx\<rparr>))"
  using assms by (auto simp: Commit_def split: if_splits)

lemma insert_carts_simps [simp]:
  "products (insert_carts u t) = products t"
  "cart_items (insert_carts u t) = cart_items t"
  "orders (insert_carts u t) = orders t"
  "order_items (insert_carts u t) = order_items t"
  by (simp_all add: insert_carts_def)

lemma select_stock_insert_carts [simp]:
  "select_stock p (insert_carts u t) = select_stock p t"
  by (simp add: select_stock_def)

lemma AddToCart_result:
  assumes "AddToCart env u p q s = (r, s')"
  shows "products_id_seq s' = products_id_seq s \<and> orders_id_seq s' = orders_id_seq s \<and>
         (case r of
            Some e \<Rightarrow> tables s' = tables s \<and>
               (e = ErrInsufficientStock \<longrightarrow> (\<exists>st. select_stock p (tables s) = Some st \<and> st < q)) \<and>
               (e = ErrNoRows \<longrightarrow> select_stock p (tables s) = None)
          | None \<Rightarrow> 0 < q \<and> (\<exists>st. select_stock p (tables s) = Some st \<and> q \<le> st) \<and>
               tables s' = AddToCart_tables u p q (tables s))"
  using assms unfolding AddToCart_def AddToCart_tables_def
  by (auto simp: unlock_def split: if_splits prod.splits sum.splits option.splits
      dest!: Begin_cases Exec_cases QueryRow_cases Commit_cases)

lemma no_faults_failing [simp]: "no_faults env \<Longrightarrow> failing env s = False"
  by (simp add: no_faults_def failing_def)

lemma no_faults_env0: "no_faults env0"
  by (simp add: no_faults_def env0_def)

lemma AddToCart_no_faults:
  assumes "no_faults env" and "0 < q"
  shows "fst (AddToCart env u p q s) =
           (case select_stock p (tables s) of
              None \<Rightarrow> Some ErrNoRows
            | Some st \<Rightarrow> if st < q then Some ErrInsufficientStock else None)"
  using assms
  by (simp add: AddToCart_def Begin_def Exec_def QueryRow_def Commit_def
      split: option.splits)

lemma update_stock_add_simps [simp]:
  "carts (update_stock_add q p t) = carts t"
  "cart_items (update_stock_add q p t) = cart_items t"
  "orders (update_stock_add q p t) = orders t"
  "order_items (update_stock_add q p t) = order_items t"
  by (simp_all add: update_stock_add_def)

lemma upsert_cart_items_simps [simp]:
  "products (upsert_cart_items u p q t) = products t"
  "carts (upsert_cart_items u p q t) = carts t"
  "orders (upsert_cart_items u p q t) = orders t"
  "order_items (upsert_cart_items u p q t) = order_items t"
  by (simp_all add: upsert_cart_items_def)

lemma find_stock_map:
  "find (\<lambda>r. p_id r = p')
        (map (\<lambda>r. if p_id r = p then r\<lparr>p_stock := g r\<rparr> else r) rs) =
   map_option (\<lambda>r. if p_id r = p then r\<lparr>p_stock := g r\<rparr> else r)
        (find (\<lambda>r. p_id r = p') rs)"
  by (induction rs) auto

lemma select_stock_update_stock_add:
  "select_stock p' (update_stock_add q p t) =
     map_option (\<lambda>st. if p' = p then st + q else st) (select_stock p' t)"
  by (cases "find (\<lambda>r. p_id r = p') (products t)")
     (auto simp: select_stock_def update_stock_add_def find_stock_map dest: find_Some_iff[THEN iffD1])

lemma select_stock_upsert [simp]:
  "select_stock p' (upsert_cart_items u p q t) = select_stock p' t"
  by (simp add: select_stock_def)

lemma find_key_update:
  "find (cart_key u' p')
        (map (\<lambda>ci. if cart_key u p ci then ci\<lparr>ci_quantity := ci_quantity ci + q\<rparr> else ci) cs) =
   map_option (\<lambda>ci. if cart_key u p ci then ci\<lparr>ci_quantity := ci_quantity ci + q\<rparr> else ci)
        (find (cart_key u' p') cs)"
  by (induction cs) (auto simp: cart_key_def)

lemma find_None_list_ex: "find P xs = None \<longleftrightarrow> \<not> list_ex P xs"
  by (induction xs) auto

lemma find_app:
  "find P (xs @ ys) = (case find P xs of None \<Rightarrow> find P ys | Some x \<Rightarrow> Some x)"
  by (induction xs) auto

lemma cart_key_row [simp]:
  "cart_key u' p' \<lparr>ci_cart_id = u, ci_product_id = p, ci_quantity = q\<rparr> \<longleftrightarrow> u = u' \<and> p = p'"
  by (simp add: cart_key_def)

lemma find_Some_list_ex: "find P xs = Some x \<Longrightarrow> list_ex P xs \<and> P x"
  by (induction xs) (auto split: if_splits)

lemma select_quantity_upsert_same:
  "select_quantity u p (upsert_cart_items u p q t) =
     Some (case select_quantity u p t of None \<Rightarrow> q | Some q0 \<Rightarrow> q0 + q)"
proof (cases "find (cart_key u p) (cart_items t)")
  case None
  then have "\<not> list_ex (cart_key u p) (cart_items t)"
    by (simp add: find_None_list_ex)
  with None show ?thesis
    by (simp add: select_quantity_def upsert_cart_items_def find_app)
next
  case (Some ci)
  then have "list_ex (cart_key u p) (cart_items t)" "cart_key u p ci"
    by (auto dest: find_Some_list_ex)
  with Some show ?thesis
    by (simp add: select_quantity_def upsert_cart_items_def find_key_update)
qed

lemma select_quantity_upsert_other:
  assumes "(u', p') \<noteq> (u, p)"
  shows "select_quantity u' p' (upsert_cart_items u p q t) = select_quantity u' p' t"
proof (cases "find (cart_key u' p') (cart_items t)")
  case None
  with assms show ?thesis
    by (auto simp: select_quantity_def upsert_cart_items_def find_key_update find_app)
next
  case (Some ci)
  then have "cart_key u' p' ci" by (auto dest: find_Some_list_ex)
  with assms have "\<not> cart_key u p ci" by (auto simp: cart_key_def)
  with Some show ?thesis
    by (auto simp: select_quantity_def upsert_cart_items_def find_key_update find_app)
qed

lemma length_upsert_cart_items:
  "length (cart_items (upsert_cart_items u p q t)) =
     (case select_quantity u p t of
        None \<Rightarrow> length (cart_items t) + 1 | Some q0 \<Rightarrow> length (cart_items t))"
proof (cases "find (cart_key u p) (cart_items t)")
  case None
  then have "\<not> list_ex (cart_key u p) (cart_items t)"
    by (simp add: find_None_list_ex)
  with None show ?thesis
    by (simp add: select_quantity_def upsert_cart_items_def)
next
  case (Some ci)
  then have "list_ex (cart_key u p) (cart_items t)"
    by (auto dest: find_Some_list_ex)
  with Some show ?thesis
    by (simp add: select_quantity_def upsert_cart_items_def)
qed

lemma select_quantity_frame [simp]:
  "select_quantity u' p' (update_stock_add q p t) = select_quantity u' p' t"
  "select_quantity u' p' (insert_carts u t) = select_quantity u' p' t"
  by (simp_all add: select_quantity_def)

text \<open>The definitions to unfold when a concrete run is evaluated.\<close>

lemmas run_defs =
  AddToCart_def RemoveFromCart_def Checkout_def Begin_def Exec_def QueryRow_def Query_def
  Prepare_def Commit_def Rollback_def failing_def lockForUser_def unlock_def record_call_def
  insert_carts_def select_stock_def upsert_cart_items_def update_stock_add_def cart_key_def
  select_quantity_def delete_cart_item_def select_cart_join_def insert_order_items_def
  delete_cart_items_def delete_carts_def insert_orders_def zero_OrderRow_def Scan_def
  add_line_def env0_def shop_def

lemma shop_after_AddToCart:
  "tables (snd (AddToCart env0 ''u1'' 1 3 shop)) =
     \<lparr>products =
        [\<lparr>p_id = 1, p_name = ''speaker'', p_description = None, p_price = 10, p_stock = 2\<rparr>,
         \<lparr>p_id = 2, p_name = ''laptop'', p_description = None, p_price = 20, p_stock = 3\<rparr>],
      carts = [''u1''],
      cart_items = [\<lparr>ci_cart_id = ''u1'', ci_product_id = 1, ci_quantity = 3\<rparr>],
      orders = [], order_items = []\<rparr>"
  by (simp add: run_defs)

section \<open>AddToCart\<close>

text \<open>
  Claim C9. Called with a quantity that is zero or negative, \<open>AddToCart\<close> returns the
  error "quantity must be > 0" and the store it was given: no mutex is looked up or
  locked, no transaction is opened, no call reaches the database (the list \<open>calls\<close> is
  the same), and no table changes. The service function in front of it does the same,
  with the error "user_id required" when the user id is empty as well.
\<close>
theorem AddToCart_rejects_nonpositive_quantity:
  assumes "qty \<le> 0"
  shows "AddToCart env userID productID qty s = (Some (ErrorsNew ''quantity must be > 0''), s) \<and>
         Service_AddToCart env userID productID qty s =
           (Some (ErrorsNew (if userID = [] then ''user_id required'' else ''quantity must be > 0'')), s)"
  using assms by (simp add: AddToCart_def Service_AddToCart_def)

theorem AddToCart_rejects_nonpositive_quantity_witness:
  "(0::int) \<le> 0 \<and>
   AddToCart env0 ''u1'' 1 0 shop = (Some (ErrorsNew ''quantity must be > 0''), shop) \<and>
   Service_AddToCart env0 ''u1'' 1 0 shop = (Some (ErrorsNew ''quantity must be > 0''), shop)"
  using AddToCart_rejects_nonpositive_quantity [of 0 env0 "''u1''" 1 shop] by simp

text \<open>With a positive quantity the first two calls are the lock and \<open>Begin\<close>.\<close>

lemma AddToCart_positive_quantity_calls:
  assumes "0 < qty"
  shows "prefix (calls s @ [EvLock userID, EvBegin]) (calls (snd (AddToCart env userID productID qty s)))"
  using assms
  by (auto simp: AddToCart_def Begin_def Exec_def QueryRow_def Commit_def prefix_def
      split: option.splits)

text \<open>
  Claim C2. For a positive quantity: \<open>AddToCart\<close> returns \<open>ErrInsufficientStock\<close> only when
  the product's stock is below the quantity, and, when no call fails in the store and
  the product exists, exactly then. Whenever \<open>AddToCart\<close> returns an error, all tables are
  as before. A stock that was not negative is not negative afterwards.
\<close>
theorem AddToCart_insufficient_stock:
  assumes "0 < qty"
  shows "(fst (AddToCart env userID productID qty s) = Some ErrInsufficientStock \<longrightarrow>
            (\<exists>stock. select_stock productID (tables s) = Some stock \<and> stock < qty)) \<and>
         (no_faults env \<longrightarrow> select_stock productID (tables s) = Some stock \<longrightarrow>
            (fst (AddToCart env userID productID qty s) = Some ErrInsufficientStock \<longleftrightarrow> stock < qty)) \<and>
         (fst (AddToCart env userID productID qty s) \<noteq> None \<longrightarrow>
            tables (snd (AddToCart env userID productID qty s)) = tables s) \<and>
         (select_stock p (tables s) = Some st \<longrightarrow> 0 \<le> st \<longrightarrow>
            (\<exists>st'. select_stock p (tables (snd (AddToCart env userID productID qty s))) = Some st' \<and> 0 \<le> st'))"
proof -
  obtain r s' where R: "AddToCart env userID productID qty s = (r, s')"
    by (cases "AddToCart env userID productID qty s")
  note res = AddToCart_result [OF R]
  have 1: "r = Some ErrInsufficientStock \<longrightarrow>
            (\<exists>stock. select_stock productID (tables s) = Some stock \<and> stock < qty)"
    using res by auto
  have 2: "no_faults env \<longrightarrow> select_stock productID (tables s) = Some stock \<longrightarrow>
            (r = Some ErrInsufficientStock \<longleftrightarrow> stock < qty)"
    using AddToCart_no_faults [of env qty userID productID s] assms R by auto
  have 3: "r \<noteq> None \<longrightarrow> tables s' = tables s"
    using res by auto
  have 4: "select_stock p (tables s) = Some st \<longrightarrow> 0 \<le> st \<longrightarrow>
            (\<exists>st'. select_stock p (tables s') = Some st' \<and> 0 \<le> st')"
    using res
    by (cases r) (auto simp: AddToCart_tables_def select_stock_update_stock_add)
  from 1 2 3 4 show ?thesis by (simp add: R)
qed

theorem AddToCart_insufficient_stock_witness:
  "(0::int) < 3 \<and> no_faults env0 \<and>
   select_stock 1 (tables (snd (AddToCart env0 ''u1'' 1 3 shop))) = Some 2 \<and>
   fst (AddToCart env0 ''u2'' 1 3 (snd (AddToCart env0 ''u1'' 1 3 shop))) =
     Some ErrInsufficientStock \<and>
   tables (snd (AddToCart env0 ''u2'' 1 3 (snd (AddToCart env0 ''u1'' 1 3 shop)))) =
     tables (snd (AddToCart env0 ''u1'' 1 3 shop))"
proof -
  let ?s = "snd (AddToCart env0 ''u1'' 1 3 shop)"
  have st: "select_stock 1 (tables ?s) = Some 2"
    by (simp add: shop_after_AddToCart select_stock_def)
  show ?thesis
    using AddToCart_insufficient_stock [of 3 env0 "''u2''" 1 ?s 2 1 2] st no_faults_env0
    by simp
qed

text \<open>
  Claim C6. For a positive quantity not above the product's stock: \<open>AddToCart\<close> succeeds
  when no call fails in the store, and when it succeeds the cart item of the user for the
  product holds the quantity (a new row, when there was none) or the former quantity plus
  the quantity (no new row), the product's stock is lower by the quantity, and every other
  cart item and every other product's stock are as before.
\<close>
theorem AddToCart_reserves:
  assumes "0 < qty" and "select_stock productID (tables s) = Some stock" and "qty \<le> stock"
  shows "(no_faults env \<longrightarrow> fst (AddToCart env userID productID qty s) = None) \<and>
         (fst (AddToCart env userID productID qty s) = None \<longrightarrow>
            select_quantity userID productID (tables (snd (AddToCart env userID productID qty s))) =
              Some (case select_quantity userID productID (tables s) of
                      None \<Rightarrow> qty | Some q0 \<Rightarrow> q0 + qty) \<and>
            select_stock productID (tables (snd (AddToCart env userID productID qty s))) =
              Some (stock - qty) \<and>
            length (cart_items (tables (snd (AddToCart env userID productID qty s)))) =
              (case select_quantity userID productID (tables s) of
                 None \<Rightarrow> length (cart_items (tables s)) + 1
               | Some q0 \<Rightarrow> length (cart_items (tables s))) \<and>
            (\<forall>u' p'. (u', p') \<noteq> (userID, productID) \<longrightarrow>
               select_quantity u' p' (tables (snd (AddToCart env userID productID qty s))) =
                 select_quantity u' p' (tables s)) \<and>
            (\<forall>p'. p' \<noteq> productID \<longrightarrow>
               select_stock p' (tables (snd (AddToCart env userID productID qty s))) =
                 select_stock p' (tables s)))"
proof -
  obtain r s' where R: "AddToCart env userID productID qty s = (r, s')"
    by (cases "AddToCart env userID productID qty s")
  note res = AddToCart_result [OF R]
  have ok: "no_faults env \<longrightarrow> r = None"
    using AddToCart_no_faults [of env qty userID productID s] assms R by auto
  have eff: "tables s' = AddToCart_tables userID productID qty (tables s)" if "r = None"
    using res that by simp
  note len = length_upsert_cart_items
  have "r = None \<longrightarrow>
            select_quantity userID productID (tables s') =
              Some (case select_quantity userID productID (tables s) of
                      None \<Rightarrow> qty | Some q0 \<Rightarrow> q0 + qty) \<and>
            select_stock productID (tables s') = Some (stock - qty) \<and>
            length (cart_items (tables s')) =
              (case select_quantity userID productID (tables s) of
                 None \<Rightarrow> length (cart_items (tables s)) + 1
               | Some q0 \<Rightarrow> length (cart_items (tables s))) \<and>
            (\<forall>u' p'. (u', p') \<noteq> (userID, productID) \<longrightarrow>
               select_quantity u' p' (tables s') = select_quantity u' p' (tables s)) \<and>
            (\<forall>p'. p' \<noteq> productID \<longrightarrow> select_stock p' (tables s') = select_stock p' (tables s))"
    using assms
    by (auto simp: eff AddToCart_tables_def select_stock_update_stock_add
        select_quantity_upsert_same select_quantity_upsert_other len option.map_ident
        split: option.splits)
  with ok show ?thesis by (simp add: R)
qed

theorem AddToCart_reserves_witness:
  "(0::int) < 3 \<and> select_stock 1 (tables shop) = Some 5 \<and> (3::int) \<le> 5 \<and> no_faults env0 \<and>
   fst (AddToCart env0 ''u1'' 1 3 shop) = None \<and>
   select_quantity ''u1'' 1 (tables shop) = None \<and>
   select_quantity ''u1'' 1 (tables (snd (AddToCart env0 ''u1'' 1 3 shop))) = Some 3 \<and>
   select_stock 1 (tables (snd (AddToCart env0 ''u1'' 1 3 shop))) = Some 2"
proof -
  have st: "select_stock 1 (tables shop) = Some 5"
    by (simp add: shop_def select_stock_def)
  have sq: "select_quantity ''u1'' 1 (tables shop) = None"
    by (simp add: shop_def select_quantity_def)
  show ?thesis
    using AddToCart_reserves [of 3 1 shop 5 env0 "''u1''"] st sq no_faults_env0
    by simp
qed

text \<open>
  Claim C10. For a positive quantity and a product id without a product row, \<open>AddToCart\<close>
  returns an error, which is \<open>sql.ErrNoRows\<close> when no call fails in the store and a store
  error otherwise (never the quantity error, never \<open>ErrInsufficientStock\<close>), and all
  tables are as before: the cart record inserted in the transaction is rolled back.
\<close>
theorem AddToCart_unknown_product:
  assumes "0 < qty" and "select_stock productID (tables s) = None"
  shows "fst (AddToCart env userID productID qty s) \<in> {Some ErrNoRows, Some StoreError} \<and>
         (no_faults env \<longrightarrow> fst (AddToCart env userID productID qty s) = Some ErrNoRows) \<and>
         tables (snd (AddToCart env userID productID qty s)) = tables s"
proof -
  obtain r s' where R: "AddToCart env userID productID qty s = (r, s')"
    by (cases "AddToCart env userID productID qty s")
  have nf: "no_faults env \<longrightarrow> r = Some ErrNoRows"
    using AddToCart_no_faults [of env qty userID productID s] assms R by auto
  have "r = Some ErrNoRows \<or> r = Some StoreError"
    using R assms unfolding AddToCart_def
    by (auto simp: unlock_def split: if_splits prod.splits sum.splits option.splits
        dest!: Begin_cases Exec_cases QueryRow_cases Commit_cases)
  moreover from this have "tables s' = tables s"
    using AddToCart_result [OF R] by auto
  ultimately show ?thesis using nf by (auto simp: R)
qed

theorem AddToCart_unknown_product_witness:
  "(0::int) < 2 \<and> select_stock 7 (tables shop) = None \<and> no_faults env0 \<and>
   fst (AddToCart env0 ''u1'' 7 2 shop) = Some ErrNoRows \<and>
   tables (snd (AddToCart env0 ''u1'' 7 2 shop)) = tables shop \<and>
   carts (tables shop) = []"
proof -
  have st: "select_stock 7 (tables shop) = None"
    by (simp add: shop_def select_stock_def)
  have "carts (tables shop) = []" by (simp add: shop_def)
  then show ?thesis
    using AddToCart_unknown_product [of 2 7 shop env0 "''u1''"] st no_faults_env0
    by simp
qed

section \<open>RemoveFromCart\<close>

lemma delete_cart_item_simps [simp]:
  "products (delete_cart_item u p t) = products t"
  "carts (delete_cart_item u p t) = carts t"
  "orders (delete_cart_item u p t) = orders t"
  "order_items (delete_cart_item u p t) = order_items t"
  by (simp_all add: delete_cart_item_def)

lemma select_stock_delete_cart_item [simp]:
  "select_stock p' (delete_cart_item u p t) = select_stock p' t"
  by (simp add: select_stock_def)

lemma select_quantity_delete_same:
  "select_quantity u p (delete_cart_item u p t) = None"
  by (simp add: select_quantity_def delete_cart_item_def find_None_iff)

lemma find_filter_other:
  assumes "\<And>x. P x \<Longrightarrow> Q x"
  shows "find P (filter Q xs) = find P xs"
  using assms by (induction xs) auto

lemma select_quantity_delete_other:
  assumes "(u', p') \<noteq> (u, p)"
  shows "select_quantity u' p' (delete_cart_item u p t) = select_quantity u' p' t"
proof -
  have "find (cart_key u' p') (filter (\<lambda>ci. \<not> cart_key u p ci) (cart_items t)) =
        find (cart_key u' p') (cart_items t)"
    using assms by (intro find_filter_other) (auto simp: cart_key_def)
  then show ?thesis
    by (simp add: select_quantity_def delete_cart_item_def)
qed

lemma RemoveFromCart_result:
  assumes "RemoveFromCart env u p s = (r, s')"
  shows "products_id_seq s' = products_id_seq s \<and> orders_id_seq s' = orders_id_seq s \<and>
         (case r of
            Some e \<Rightarrow> tables s' = tables s \<and> (e = ErrNoRows \<or> e = StoreError) \<and>
               (e = ErrNoRows \<longrightarrow> select_quantity u p (tables s) = None)
          | None \<Rightarrow> (\<exists>q. select_quantity u p (tables s) = Some q \<and>
               tables s' = RemoveFromCart_tables u p q (tables s)))"
  using assms unfolding RemoveFromCart_def RemoveFromCart_tables_def
  by (auto simp: unlock_def split: if_splits prod.splits sum.splits option.splits
      dest!: Begin_cases Exec_cases QueryRow_cases Commit_cases)

lemma RemoveFromCart_no_faults:
  assumes "no_faults env"
  shows "fst (RemoveFromCart env u p s) =
           (case select_quantity u p (tables s) of None \<Rightarrow> Some ErrNoRows | Some q \<Rightarrow> None)"
  using assms
  by (simp add: RemoveFromCart_def Begin_def Exec_def QueryRow_def Commit_def
      split: option.splits)

lemma schema_ok_product_exists:
  assumes "schema_ok t" and "select_quantity u p t = Some q"
  shows "\<exists>st. select_stock p t = Some st"
proof -
  from assms(2) obtain ci where ci: "find (cart_key u p) (cart_items t) = Some ci"
    by (auto simp: select_quantity_def)
  then have "ci \<in> set (cart_items t)" "ci_product_id ci = p"
    by (auto simp: find_Some_iff cart_key_def in_set_conv_nth)
  with assms(1) have "list_ex (\<lambda>r. p_id r = p) (products t)"
    by (auto simp: schema_ok_def list_all_iff)
  then have "find (\<lambda>r. p_id r = p) (products t) \<noteq> None"
    by (simp add: find_None_list_ex)
  then show ?thesis by (auto simp: select_stock_def)
qed

text \<open>
  Claim C5. When the user has no cart item for the product, \<open>RemoveFromCart\<close> returns
  \<open>sql.ErrNoRows\<close> (a store error if a call fails) and all tables are as before. When the
  user has one, with quantity q, and the schema's constraints hold: \<open>RemoveFromCart\<close>
  succeeds when no call fails; a success leaves the user without a cart item for the
  product, raises the product's stock by exactly q, and leaves every other cart item and
  stock as they were; and a second \<open>RemoveFromCart\<close> right after the first returns
  \<open>sql.ErrNoRows\<close> with the stock still raised by q, once.
\<close>
theorem RemoveFromCart_releases:
  "(select_quantity userID productID (tables s) = None \<longrightarrow>
      fst (RemoveFromCart env userID productID s) \<in> {Some ErrNoRows, Some StoreError} \<and>
      (no_faults env \<longrightarrow> fst (RemoveFromCart env userID productID s) = Some ErrNoRows) \<and>
      tables (snd (RemoveFromCart env userID productID s)) = tables s) \<and>
   (select_quantity userID productID (tables s) = Some q \<longrightarrow> schema_ok (tables s) \<longrightarrow>
      (no_faults env \<longrightarrow> fst (RemoveFromCart env userID productID s) = None) \<and>
      (fst (RemoveFromCart env userID productID s) = None \<longrightarrow>
         select_quantity userID productID (tables (snd (RemoveFromCart env userID productID s))) = None \<and>
         (\<exists>stock. select_stock productID (tables s) = Some stock \<and>
            select_stock productID (tables (snd (RemoveFromCart env userID productID s))) =
              Some (stock + q)) \<and>
         (\<forall>u' p'. (u', p') \<noteq> (userID, productID) \<longrightarrow>
            select_quantity u' p' (tables (snd (RemoveFromCart env userID productID s))) =
              select_quantity u' p' (tables s)) \<and>
         (\<forall>p'. p' \<noteq> productID \<longrightarrow>
            select_stock p' (tables (snd (RemoveFromCart env userID productID s))) =
              select_stock p' (tables s))) \<and>
      (no_faults env \<longrightarrow>
         fst (RemoveFromCart env userID productID (snd (RemoveFromCart env userID productID s))) =
           Some ErrNoRows \<and>
         (\<exists>stock. select_stock productID (tables s) = Some stock \<and>
            select_stock productID
              (tables (snd (RemoveFromCart env userID productID
                 (snd (RemoveFromCart env userID productID s))))) = Some (stock + q))))"
proof -
  obtain r s1 where R: "RemoveFromCart env userID productID s = (r, s1)"
    by (cases "RemoveFromCart env userID productID s")
  obtain r2 s2 where R2: "RemoveFromCart env userID productID s1 = (r2, s2)"
    by (cases "RemoveFromCart env userID productID s1")
  note res = RemoveFromCart_result [OF R]
  note res2 = RemoveFromCart_result [OF R2]
  note nf = RemoveFromCart_no_faults [of env userID productID s]
  note nf2 = RemoveFromCart_no_faults [of env userID productID s1]
  have absent: "r \<in> {Some ErrNoRows, Some StoreError} \<and> (no_faults env \<longrightarrow> r = Some ErrNoRows) \<and>
      tables s1 = tables s" if "select_quantity userID productID (tables s) = None"
    using res nf that R by (cases r) auto
  have eff: "tables s1 = RemoveFromCart_tables userID productID q (tables s)"
    if "select_quantity userID productID (tables s) = Some q" "r = None"
    using res that by auto
  have ok: "no_faults env \<longrightarrow> r = None" if "select_quantity userID productID (tables s) = Some q"
    using nf that R by auto
  have present: "select_quantity userID productID (tables s1) = None \<and>
         (\<exists>stock. select_stock productID (tables s) = Some stock \<and>
            select_stock productID (tables s1) = Some (stock + q)) \<and>
         (\<forall>u' p'. (u', p') \<noteq> (userID, productID) \<longrightarrow>
            select_quantity u' p' (tables s1) = select_quantity u' p' (tables s)) \<and>
         (\<forall>p'. p' \<noteq> productID \<longrightarrow> select_stock p' (tables s1) = select_stock p' (tables s))"
    if q: "select_quantity userID productID (tables s) = Some q" and wf: "schema_ok (tables s)"
      and "r = None"
  proof -
    from schema_ok_product_exists [OF wf q] obtain stock
      where "select_stock productID (tables s) = Some stock" ..
    then show ?thesis
      using eff [OF q \<open>r = None\<close>]
      by (auto simp: RemoveFromCart_tables_def select_stock_update_stock_add
          select_quantity_delete_same select_quantity_delete_other option.map_ident)
  qed
  have twice: "r2 = Some ErrNoRows \<and>
         (\<exists>stock. select_stock productID (tables s) = Some stock \<and>
            select_stock productID (tables s2) = Some (stock + q))"
    if q: "select_quantity userID productID (tables s) = Some q" and wf: "schema_ok (tables s)"
      and env: "no_faults env"
  proof -
    from ok [OF q] env have r: "r = None" by simp
    note p = present [OF q wf r]
    from p have gone: "select_quantity userID productID (tables s1) = None" by simp
    with nf2 env R2 have r2: "r2 = Some ErrNoRows" by simp
    with res2 have "tables s2 = tables s1" by simp
    with p r2 show ?thesis by simp
  qed
  from absent ok present twice show ?thesis
    by (simp add: R R2)
qed

theorem RemoveFromCart_releases_witness:
  "select_quantity ''u1'' 1 (tables shop) = None \<and>
   fst (RemoveFromCart env0 ''u1'' 1 shop) = Some ErrNoRows \<and>
   select_quantity ''u1'' 1 (tables (snd (AddToCart env0 ''u1'' 1 3 shop))) = Some 3 \<and>
   schema_ok (tables (snd (AddToCart env0 ''u1'' 1 3 shop))) \<and> no_faults env0 \<and>
   fst (RemoveFromCart env0 ''u1'' 1 (snd (AddToCart env0 ''u1'' 1 3 shop))) = None \<and>
   select_stock 1 (tables (snd (AddToCart env0 ''u1'' 1 3 shop))) = Some 2 \<and>
   select_stock 1 (tables (snd (RemoveFromCart env0 ''u1'' 1
      (snd (AddToCart env0 ''u1'' 1 3 shop))))) = Some 5 \<and>
   fst (RemoveFromCart env0 ''u1'' 1 (snd (RemoveFromCart env0 ''u1'' 1
      (snd (AddToCart env0 ''u1'' 1 3 shop))))) = Some ErrNoRows"
proof -
  let ?s = "snd (AddToCart env0 ''u1'' 1 3 shop)"
  have a: "select_quantity ''u1'' 1 (tables shop) = None"
    by (simp add: shop_def select_quantity_def)
  have q: "select_quantity ''u1'' 1 (tables ?s) = Some 3"
    by (simp add: shop_after_AddToCart select_quantity_def cart_key_def)
  have st: "select_stock 1 (tables ?s) = Some 2"
    by (simp add: shop_after_AddToCart select_stock_def)
  have wf: "schema_ok (tables ?s)"
    by (simp add: shop_after_AddToCart schema_ok_def)
  show ?thesis
    using RemoveFromCart_releases [of "''u1''" 1 shop env0 3]
      RemoveFromCart_releases [of "''u1''" 1 ?s env0 3] a q st wf no_faults_env0
    by simp
qed

section \<open>Checkout\<close>

lemma scan_rows_result:
  assumes "scan_rows env rows items tot s = (r, items', tot', s')"
  shows "tables s' = tables s \<and> products_id_seq s' = products_id_seq s \<and>
         orders_id_seq s' = orders_id_seq s \<and> set (calls s) \<subseteq> set (calls s') \<and>
         (r = Some StoreError \<or>
          (r = None \<and>
           (\<exists>k. items' = items @ map Scan (take k rows) \<and>
                tot' = foldl (add_line env) tot (map Scan (take k rows)) \<and>
                (k = length rows \<or> EvNextErr \<in> set (calls s')))))"
  using assms
proof (induction rows arbitrary: items tot s)
  case Nil
  then show ?case by (auto split: if_splits)
next
  case (Cons row rows)
  show ?case
  proof (cases "failing env s")
    case True
    with Cons.prems have "r = None" "items' = items" "tot' = tot"
      "s' = record_call EvNextErr s" by auto
    then show ?thesis by (auto intro: exI [of _ 0])
  next
    case next_ok: False
    show ?thesis
    proof (cases "failing env (record_call EvNext s)")
      case True
      with next_ok Cons.prems show ?thesis by (auto simp: Let_def)
    next
      case False
      with next_ok Cons.prems have
        "scan_rows env rows (items @ [Scan row]) (add_line env tot (Scan row))
           (record_call EvScan (record_call EvNext s)) = (r, items', tot', s')"
        by (simp add: Let_def)
      from Cons.IH [OF this]
      have frame: "tables s' = tables s \<and> products_id_seq s' = products_id_seq s \<and>
          orders_id_seq s' = orders_id_seq s \<and> set (calls s) \<subseteq> set (calls s')"
        and res: "r = Some StoreError \<or>
          (r = None \<and>
           (\<exists>k. items' = (items @ [Scan row]) @ map Scan (take k rows) \<and>
                tot' = foldl (add_line env) (add_line env tot (Scan row)) (map Scan (take k rows)) \<and>
                (k = length rows \<or> EvNextErr \<in> set (calls s'))))"
        by auto
      from res show ?thesis
      proof
        assume "r = Some StoreError"
        with frame show ?thesis by simp
      next
        assume "r = None \<and>
           (\<exists>k. items' = (items @ [Scan row]) @ map Scan (take k rows) \<and>
                tot' = foldl (add_line env) (add_line env tot (Scan row)) (map Scan (take k rows)) \<and>
                (k = length rows \<or> EvNextErr \<in> set (calls s')))"
        then obtain k where "r = None"
          and "items' = items @ map Scan (take (Suc k) (row # rows))"
          and "tot' = foldl (add_line env) tot (map Scan (take (Suc k) (row # rows)))"
          and "Suc k = length (row # rows) \<or> EvNextErr \<in> set (calls s')"
          by auto
        with frame show ?thesis by blast
      qed
    qed
  qed
qed

lemma insert_order_items_simps [simp]:
  "products (insert_order_items oid it t) = products t"
  "carts (insert_order_items oid it t) = carts t"
  "cart_items (insert_order_items oid it t) = cart_items t"
  "orders (insert_order_items oid it t) = orders t"
  "order_items (insert_order_items oid it t) = order_items t @ [order_item_of oid it]"
  by (simp_all add: insert_order_items_def order_item_of_def)

lemma exec_order_items_result:
  assumes "exec_order_items env oid items tx s = (r, s')"
  shows "tables s' = tables s \<and> products_id_seq s' = products_id_seq s \<and>
         orders_id_seq s' = orders_id_seq s \<and> set (calls s) \<subseteq> set (calls s') \<and>
         (r = Inl StoreError \<or> r = Inr (foldl (\<lambda>tx it. insert_order_items oid it tx) tx items))"
  using assms
proof (induction items arbitrary: tx s)
  case Nil
  then show ?case by simp
next
  case (Cons it items)
  show ?case
  proof (cases "failing env s")
    case True
    with Cons.prems show ?thesis by (auto simp: Exec_def)
  next
    case False
    with Cons.prems have
      "exec_order_items env oid items (insert_order_items oid it tx) (record_call EvExec s) = (r, s')"
      by (simp add: Exec_def)
    from Cons.IH [OF this] show ?thesis by auto
  qed
qed

lemma insert_orders_result:
  assumes "insert_orders env u tot tx s = (r, s')"
  shows "tables s' = tables s \<and> products_id_seq s' = products_id_seq s \<and>
         set (calls s) \<subseteq> set (calls s') \<and>
         ((r = Inl StoreError \<and> orders_id_seq s' = orders_id_seq s) \<or>
          (\<exists>c. r = Inr (orders_id_seq s + 1, c,
                  tx\<lparr>orders := orders tx @
                       [\<lparr>o_id = orders_id_seq s + 1, o_user_id = u, o_total = tot,
                         o_created_at = c\<rparr>]\<rparr>) \<and>
               orders_id_seq s' = orders_id_seq s + 1))"
  using assms by (auto simp: insert_orders_def Let_def split: if_splits)

lemma foldl_insert_order_items:
  "foldl (\<lambda>tx it. insert_order_items oid it tx) t items =
     t\<lparr>order_items := order_items t @ map (order_item_of oid) items\<rparr>"
  by (induction items arbitrary: t) (simp_all add: insert_order_items_def order_item_of_def)

lemma Checkout_tables_simps [simp]:
  "products (Checkout_tables u ord items t) = products t"
  "carts (Checkout_tables u ord items t) = filter (\<lambda>v. v \<noteq> u) (carts t)"
  "cart_items (Checkout_tables u ord items t) = filter (\<lambda>ci. ci_cart_id ci \<noteq> u) (cart_items t)"
  "orders (Checkout_tables u ord items t) =
     orders t @ [\<lparr>o_id = ID ord, o_user_id = u, o_total = Total ord, o_created_at = CreatedAt ord\<rparr>]"
  "order_items (Checkout_tables u ord items t) = order_items t @ map (order_item_of (ID ord)) items"
  by (simp_all add: Checkout_tables_def foldl_insert_order_items delete_carts_def
      delete_cart_items_def)

text \<open>What each call leaves of the store, whatever the failures.\<close>

lemma Begin_frame:
  assumes "Begin env s = (r, s')"
  shows "tables s' = tables s \<and> products_id_seq s' = products_id_seq s \<and>
         orders_id_seq s' = orders_id_seq s \<and> set (calls s) \<subseteq> set (calls s') \<and>
         (r = Inl StoreError \<or> r = Inr (tables s))"
  using assms by (auto simp: Begin_def split: if_splits)

lemma Exec_frame:
  assumes "Exec env stmt tx s = (r, s')"
  shows "tables s' = tables s \<and> products_id_seq s' = products_id_seq s \<and>
         orders_id_seq s' = orders_id_seq s \<and> set (calls s) \<subseteq> set (calls s') \<and>
         (r = Inl StoreError \<or> r = Inr (stmt tx))"
  using assms by (auto simp: Exec_def split: if_splits)

lemma Query_frame:
  assumes "Query env query tx s = (r, s')"
  shows "tables s' = tables s \<and> products_id_seq s' = products_id_seq s \<and>
         orders_id_seq s' = orders_id_seq s \<and> set (calls s) \<subseteq> set (calls s') \<and>
         (r = Inl StoreError \<or> r = Inr (query tx))"
  using assms by (auto simp: Query_def split: if_splits)

lemma Prepare_frame:
  assumes "Prepare env s = (r, s')"
  shows "tables s' = tables s \<and> products_id_seq s' = products_id_seq s \<and>
         orders_id_seq s' = orders_id_seq s \<and> set (calls s) \<subseteq> set (calls s') \<and>
         (r = Some StoreError \<or> r = None)"
  using assms by (auto simp: Prepare_def split: if_splits)

lemma Commit_frame:
  assumes "Commit env tx s = (r, s')"
  shows "products_id_seq s' = products_id_seq s \<and> orders_id_seq s' = orders_id_seq s \<and>
         set (calls s) \<subseteq> set (calls s') \<and>
         ((r = Some StoreError \<and> tables s' = tables s) \<or> (r = None \<and> tables s' = tx))"
  using assms by (auto simp: Commit_def split: if_splits)

lemma Checkout_result:
  assumes C: "Checkout env u s = ((ord, items, r), s')"
  shows "products_id_seq s' = products_id_seq s \<and> set (calls s) \<subseteq> set (calls s') \<and>
         (case r of
            Some e \<Rightarrow> tables s' = tables s \<and> ord = zero_OrderRow env \<and>
               (e = StoreError \<or>
                (e = ErrorsNew ''cart empty'' \<and> items = [] \<and>
                 orders_id_seq s' = orders_id_seq s \<and>
                 (select_cart_join u (tables s) = [] \<or> EvNextErr \<in> set (calls s'))))
          | None \<Rightarrow> select_cart_join u (tables s) \<noteq> [] \<and> items \<noteq> [] \<and>
               (\<exists>k. items = map Scan (take k (select_cart_join u (tables s)))) \<and>
               (items = map Scan (select_cart_join u (tables s)) \<or>
                EvNextErr \<in> set (calls s')) \<and>
               ID ord = orders_id_seq s + 1 \<and> orders_id_seq s' = orders_id_seq s + 1 \<and>
               UserID ord = u \<and>
               Total ord = foldl (add_line env) (float64_zero env) items \<and>
               tables s' = Checkout_tables u ord items (tables s))"
proof -
  note C' = C [unfolded Checkout_def Let_def]
  have l: "set (calls s) \<subseteq> set (calls (lockForUser u s))" by auto
  obtain r0 s0 where c0: "Begin env (lockForUser u s) = (r0, s0)"
    by (cases "Begin env (lockForUser u s)")
  note f0 = Begin_frame [OF c0]
  from l f0 have m0: "set (calls s) \<subseteq> set (calls s0)" by auto
  show ?thesis
  proof (cases r0)
    case (Inl e)
    with C' c0 f0 m0 show ?thesis by (auto simp: unlock_def)
  next
    case b: (Inr tx)
    with f0 have tx: "tx = tables s" by simp
    obtain r1 s1 where c1: "Query env (select_cart_join u) tx s0 = (r1, s1)"
      by (cases "Query env (select_cart_join u) tx s0")
    note f1 = Query_frame [OF c1]
    from m0 f1 have m1: "set (calls s) \<subseteq> set (calls s1)" by auto
    show ?thesis
    proof (cases r1)
      case (Inl e)
      with C' c0 b c1 f0 f1 m1 show ?thesis by (auto simp: unlock_def)
    next
      case q: (Inr rows)
      with f1 tx have rows: "rows = select_cart_join u (tables s)" by simp
      obtain r2 its tot s2
        where c2: "scan_rows env rows [] (float64_zero env) s1 = (r2, its, tot, s2)"
        by (cases "scan_rows env rows [] (float64_zero env) s1")
      note f2 = scan_rows_result [OF c2]
      from m1 f2 have m2: "set (calls s) \<subseteq> set (calls s2)" by auto
      from f0 f1 f2 have t2: "tables s2 = tables s" "products_id_seq s2 = products_id_seq s"
        "orders_id_seq s2 = orders_id_seq s" by simp_all
      show ?thesis
      proof (cases r2)
        case (Some e)
        with f2 have "e = StoreError" by auto
        with Some C' c0 b c1 q c2 t2 m2 show ?thesis by (auto simp: unlock_def)
      next
        case n: None
        with f2 obtain k where its: "its = map Scan (take k rows)"
          and tot: "tot = foldl (add_line env) (float64_zero env) its"
          and k: "k = length rows \<or> EvNextErr \<in> set (calls s2)" by auto
        from its k have full: "its = map Scan rows \<or> EvNextErr \<in> set (calls s2)" by auto
        show ?thesis
        proof (cases "its = []")
          case True
          with full have "rows = [] \<or> EvNextErr \<in> set (calls s2)" by auto
          with True C' c0 b c1 q c2 n t2 m2 rows show ?thesis by (auto simp: unlock_def)
        next
          case ne: False
          with its have rne: "rows \<noteq> []" by auto
          obtain r3 s3 where c3: "insert_orders env u tot tx s2 = (r3, s3)"
            by (cases "insert_orders env u tot tx s2")
          note f3 = insert_orders_result [OF c3]
          from m2 f3 have m3: "set (calls s) \<subseteq> set (calls s3)" by auto
          from t2 f3 have t3: "tables s3 = tables s" "products_id_seq s3 = products_id_seq s"
            by simp_all
          show ?thesis
          proof (cases r3)
            case (Inl e)
            with f3 have "e = StoreError" by auto
            with Inl C' c0 b c1 q c2 n ne c3 t3 m3 show ?thesis by (auto simp: unlock_def)
          next
            case (Inr v)
            with f3 obtain c where
              i: "r3 = Inr (orders_id_seq s2 + 1, c,
                     tx\<lparr>orders := orders tx @
                       [\<lparr>o_id = orders_id_seq s2 + 1, o_user_id = u, o_total = tot,
                         o_created_at = c\<rparr>]\<rparr>)"
              and seq3: "orders_id_seq s3 = orders_id_seq s2 + 1" by auto
            let ?oid = "orders_id_seq s2 + 1"
            let ?tx3 = "tx\<lparr>orders := orders tx @
                       [\<lparr>o_id = ?oid, o_user_id = u, o_total = tot, o_created_at = c\<rparr>]\<rparr>"
            obtain r4 s4 where c4: "Prepare env s3 = (r4, s4)"
              by (cases "Prepare env s3")
            note f4 = Prepare_frame [OF c4]
            from m3 f4 have m4: "set (calls s) \<subseteq> set (calls s4)" by auto
            from t3 f4 have t4: "tables s4 = tables s" "products_id_seq s4 = products_id_seq s"
              by simp_all
            show ?thesis
            proof (cases r4)
              case (Some e)
              with f4 have "e = StoreError" by auto
              with Some C' c0 b c1 q c2 n ne c3 i c4 t4 m4 show ?thesis
                by (auto simp: unlock_def)
            next
              case p: None
              obtain r5 s5 where c5: "exec_order_items env ?oid its ?tx3 s4 = (r5, s5)"
                by (cases "exec_order_items env ?oid its ?tx3 s4")
              note f5 = exec_order_items_result [OF c5]
              from m4 f5 have m5: "set (calls s) \<subseteq> set (calls s5)" by auto
              from t4 f5 have t5: "tables s5 = tables s" "products_id_seq s5 = products_id_seq s"
                by simp_all
              show ?thesis
              proof (cases r5)
                case (Inl e)
                with f5 have "e = StoreError" by auto
                with Inl C' c0 b c1 q c2 n ne c3 i c4 p c5 t5 m5 show ?thesis
                  by (auto simp: unlock_def)
              next
                case x: (Inr tx5)
                with f5 have tx5: "tx5 = foldl (\<lambda>tx it. insert_order_items ?oid it tx) ?tx3 its"
                  by simp
                obtain r6 s6 where c6: "Exec env (delete_cart_items u) tx5 s5 = (r6, s6)"
                  by (cases "Exec env (delete_cart_items u) tx5 s5")
                note f6 = Exec_frame [OF c6]
                from m5 f6 have m6: "set (calls s) \<subseteq> set (calls s6)" by auto
                from t5 f6 have t6: "tables s6 = tables s"
                  "products_id_seq s6 = products_id_seq s" by simp_all
                show ?thesis
                proof (cases r6)
                  case (Inl e)
                  with f6 have "e = StoreError" by auto
                  with Inl C' c0 b c1 q c2 n ne c3 i c4 p c5 x c6 t6 m6
                  show ?thesis by (auto simp: unlock_def)
                next
                  case d1: (Inr tx6)
                  with f6 have tx6: "tx6 = delete_cart_items u tx5" by simp
                  obtain r7 s7 where c7: "Exec env (delete_carts u) tx6 s6 = (r7, s7)"
                    by (cases "Exec env (delete_carts u) tx6 s6")
                  note f7 = Exec_frame [OF c7]
                  from m6 f7 have m7: "set (calls s) \<subseteq> set (calls s7)" by auto
                  from t6 f7 have t7: "tables s7 = tables s"
                    "products_id_seq s7 = products_id_seq s" by simp_all
                  show ?thesis
                  proof (cases r7)
                    case (Inl e)
                    with f7 have "e = StoreError" by auto
                    with Inl C' c0 b c1 q c2 n ne c3 i c4 p c5 x c6 d1 c7 t7 m7
                    show ?thesis by (auto simp: unlock_def)
                  next
                    case d2: (Inr tx7)
                    with f7 have tx7: "tx7 = delete_carts u tx6" by simp
                    obtain r8 s8 where c8: "Commit env tx7 s7 = (r8, s8)"
                      by (cases "Commit env tx7 s7")
                    note f8 = Commit_frame [OF c8]
                    from m7 f8 have m8: "set (calls s) \<subseteq> set (calls s8)" by auto
                    have n8: "set (calls s2) \<subseteq> set (calls s8)"
                      using f3 f4 f5 f6 f7 f8 by blast
                    from C' c0 b c1 q c2 n ne c3 i c4 p c5 x c6 d1 c7 d2 c8
                    have res: "(ord, items, r) =
                        (case r8 of
                           Some err \<Rightarrow> (zero_OrderRow env, its, Some err)
                         | None \<Rightarrow> (\<lparr>ID = ?oid, UserID = u, Total = tot, CreatedAt = c\<rparr>, its, None))"
                      and s': "tables s' = tables s8" "products_id_seq s' = products_id_seq s8"
                        "orders_id_seq s' = orders_id_seq s8"
                        "set (calls s8) \<subseteq> set (calls s')"
                      by (auto simp: unlock_def split: option.splits)
                    have seqs: "products_id_seq s8 = products_id_seq s"
                      "orders_id_seq s8 = orders_id_seq s + 1"
                      using t7 t2 f4 f5 f6 f7 f8 seq3 by simp_all
                    from m8 s' have m': "set (calls s) \<subseteq> set (calls s')" by blast
                    from full n8 s' have full': "its = map Scan rows \<or> EvNextErr \<in> set (calls s')"
                      by blast
                    show ?thesis
                    proof (cases r8)
                      case (Some e)
                      with f8 have "e = StoreError" "tables s8 = tables s7" by auto
                      with Some res s' seqs t7 m' show ?thesis by simp
                    next
                      case None
                      with f8 have "tables s8 = tx7" by auto
                      moreover have "\<exists>k. its = map Scan (take k rows)" using its by blast
                      ultimately show ?thesis
                        using None res s' seqs t2 tx7 tx6 tx5 tx tot rows ne rne m' full'
                        by (simp add: Checkout_tables_def)
                    qed
                  qed
                qed
              qed
            qed
          qed
        qed
      qed
    qed
  qed
qed

lemma scan_rows_no_faults:
  assumes "no_faults env"
  shows "\<exists>s'. scan_rows env rows items tot s =
           (None, items @ map Scan rows, foldl (add_line env) tot (map Scan rows), s')"
proof (induction rows arbitrary: items tot s)
  case Nil
  from assms show ?case by simp
next
  case (Cons row rows)
  from Cons [of "items @ [Scan row]" "add_line env tot (Scan row)"
      "record_call EvScan (record_call EvNext s)"]
  obtain s' where "scan_rows env rows (items @ [Scan row]) (add_line env tot (Scan row))
      (record_call EvScan (record_call EvNext s)) =
      (None, (items @ [Scan row]) @ map Scan rows,
       foldl (add_line env) (add_line env tot (Scan row)) (map Scan rows), s')"
    by blast
  with assms show ?case by (simp add: Let_def)
qed

lemma exec_order_items_no_faults:
  assumes "no_faults env"
  shows "\<exists>s'. exec_order_items env oid items tx s =
           (Inr (foldl (\<lambda>tx it. insert_order_items oid it tx) tx items), s')"
proof (induction items arbitrary: tx s)
  case Nil
  show ?case by simp
next
  case (Cons it items)
  from Cons [of "insert_order_items oid it tx" "record_call EvExec s"]
  obtain s' where "exec_order_items env oid items (insert_order_items oid it tx)
      (record_call EvExec s) =
      (Inr (foldl (\<lambda>tx it. insert_order_items oid it tx) (insert_order_items oid it tx) items), s')"
    by blast
  with assms show ?case by (simp add: Exec_def)
qed

lemma Checkout_no_faults:
  assumes "no_faults env"
  shows "snd (snd (fst (Checkout env u s))) =
           (if select_cart_join u (tables s) = [] then Some (ErrorsNew ''cart empty'') else None) \<and>
         fst (snd (fst (Checkout env u s))) = map Scan (select_cart_join u (tables s))"
proof -
  let ?rows = "select_cart_join u (tables s)"
  let ?s1 = "record_call EvQuery (record_call EvBegin (lockForUser u s))"
  from scan_rows_no_faults [OF assms, of ?rows "[]" "float64_zero env" ?s1]
  obtain s2 where sc: "scan_rows env ?rows [] (float64_zero env) ?s1 =
      (None, map Scan ?rows, foldl (add_line env) (float64_zero env) (map Scan ?rows), s2)"
    by auto
  let ?tot = "foldl (add_line env) (float64_zero env) (map Scan ?rows)"
  let ?oid = "orders_id_seq s2 + 1"
  let ?c = "clock env (length (calls s2))"
  let ?tx3 = "(tables s)\<lparr>orders := orders (tables s) @
      [\<lparr>o_id = ?oid, o_user_id = u, o_total = ?tot, o_created_at = ?c\<rparr>]\<rparr>"
  let ?s4 = "record_call EvPrepare (record_call EvQuery (s2\<lparr>orders_id_seq := ?oid\<rparr>))"
  from exec_order_items_no_faults [OF assms, of ?oid "map Scan ?rows" ?tx3 ?s4]
  obtain s5 where ex: "exec_order_items env ?oid (map Scan ?rows) ?tx3 ?s4 =
      (Inr (foldl (\<lambda>tx it. insert_order_items ?oid it tx) ?tx3 (map Scan ?rows)), s5)"
    by auto
  from assms sc ex show ?thesis
    by (simp add: Checkout_def Let_def Begin_def Query_def Prepare_def Exec_def Commit_def
        insert_orders_def)
qed

lemma filter_product_unique:
  assumes "distinct (map p_id ps)" and "find (\<lambda>r. p_id r = p) ps = Some r"
  shows "filter (\<lambda>r. p_id r = p) ps = [r]"
  using assms
proof (induction ps)
  case Nil
  then show ?case by simp
next
  case (Cons a ps)
  show ?case
  proof (cases "p_id a = p")
    case True
    with Cons.prems have r: "a = r" and "p \<notin> p_id ` set ps" by auto
    then have "\<forall>x\<in>set ps. p_id x \<noteq> p" by blast
    with True r show ?thesis by (simp add: filter_empty_conv)
  next
    case False
    with Cons show ?thesis by simp
  qed
qed

lemma insort_key_map:
  "insort_key f (g x) (map g xs) = map g (insort_key (\<lambda>y. f (g y)) x xs)"
  by (induction xs) simp_all

lemma sort_key_map:
  "sort_key f (map g xs) = map g (sort_key (\<lambda>y. f (g y)) xs)"
  by (induction xs) (simp_all add: insort_key_map)

lemma select_cart_join_lines:
  assumes "schema_ok t"
  shows "select_cart_join u t =
           map (\<lambda>ci. (ci_product_id ci, ci_quantity ci, the (select_price (ci_product_id ci) t)))
               (sort_key ci_product_id (cart_lines u t))"
proof -
  let ?h = "\<lambda>ci. (ci_product_id ci, ci_quantity ci, the (select_price (ci_product_id ci) t))"
  have one: "map (\<lambda>p. (ci_product_id ci, ci_quantity ci, p_price p))
               (filter (\<lambda>p. p_id p = ci_product_id ci) (products t)) = [?h ci]"
    if "ci \<in> set (cart_lines u t)" for ci
  proof -
    from that assms have "list_ex (\<lambda>p. p_id p = ci_product_id ci) (products t)"
      by (auto simp: schema_ok_def cart_lines_def list_all_iff)
    then obtain r where r: "find (\<lambda>p. p_id p = ci_product_id ci) (products t) = Some r"
      by (cases "find (\<lambda>p. p_id p = ci_product_id ci) (products t)")
         (auto simp: find_None_list_ex)
    with assms have "filter (\<lambda>p. p_id p = ci_product_id ci) (products t) = [r]"
      by (intro filter_product_unique) (auto simp: schema_ok_def)
    with r show ?thesis by (simp add: select_price_def)
  qed
  have "concat (map (\<lambda>ci. map (\<lambda>p. (ci_product_id ci, ci_quantity ci, p_price p))
                              (filter (\<lambda>p. p_id p = ci_product_id ci) (products t))) xs) =
        map ?h xs" if "set xs \<subseteq> set (cart_lines u t)" for xs
    using that by (induction xs) (simp_all add: one)
  from this [of "cart_lines u t"] show ?thesis
    by (simp add: select_cart_join_def cart_lines_def [symmetric] sort_key_map)
qed

lemma select_cart_join_empty:
  "cart_lines u t = [] \<Longrightarrow> select_cart_join u t = []"
  by (simp add: select_cart_join_def cart_lines_def)


text \<open>
  Claim C4. \<open>Checkout\<close> never changes a product row: whether it succeeds or fails, and
  whichever call fails, the table \<open>products\<close>, and with it the stock of every product, is
  the same after the call as before.
\<close>
theorem Checkout_keeps_stock:
  "products (tables (snd (Checkout env userID s))) = products (tables s) \<and>
   select_stock productID (tables (snd (Checkout env userID s))) =
     select_stock productID (tables s)"
proof -
  obtain ord items r s' where C: "Checkout env userID s = ((ord, items, r), s')"
    by (cases "Checkout env userID s") auto
  from Checkout_result [OF C] have "products (tables s') = products (tables s)"
    by (cases r) auto
  with C show ?thesis by (simp add: select_stock_def)
qed

text \<open>
  Claim C7. For a user without cart items, \<open>Checkout\<close> returns the error "cart empty" (a
  store error if \<open>Begin\<close> or the query fails), the zero order, and leaves all tables as
  they were: no order row, no order item row, no change to carts or products.
\<close>
theorem Checkout_empty_cart:
  assumes "cart_lines userID (tables s) = []"
    and "Checkout env userID s = ((order, items, err), s')"
  shows "err \<in> {Some (ErrorsNew ''cart empty''), Some StoreError} \<and>
         (no_faults env \<longrightarrow> err = Some (ErrorsNew ''cart empty'')) \<and>
         tables s' = tables s \<and> order = zero_OrderRow env"
proof -
  from assms(1) have empty: "select_cart_join userID (tables s) = []"
    by (rule select_cart_join_empty)
  from Checkout_result [OF assms(2)] empty
  have "err \<in> {Some (ErrorsNew ''cart empty''), Some StoreError} \<and>
        tables s' = tables s \<and> order = zero_OrderRow env"
    by (cases err) auto
  moreover have "no_faults env \<longrightarrow> err = Some (ErrorsNew ''cart empty'')"
    using Checkout_no_faults [of env userID s] assms(2) empty by auto
  ultimately show ?thesis by simp
qed


lemma shop_with_cart_tables:
  "tables shop_with_cart =
     \<lparr>products =
        [\<lparr>p_id = 1, p_name = ''speaker'', p_description = None, p_price = 10, p_stock = 4\<rparr>,
         \<lparr>p_id = 2, p_name = ''laptop'', p_description = None, p_price = 20, p_stock = 1\<rparr>],
      carts = [''u1''],
      cart_items =
        [\<lparr>ci_cart_id = ''u1'', ci_product_id = 2, ci_quantity = 2\<rparr>,
         \<lparr>ci_cart_id = ''u1'', ci_product_id = 1, ci_quantity = 1\<rparr>],
      orders = [], order_items = []\<rparr>"
  by (simp add: shop_with_cart_def run_defs)

lemma shop_with_cart_Checkout:
  "fst (Checkout env0 ''u1'' shop_with_cart) =
     (\<lparr>ID = 1, UserID = ''u1'', Total = 50, CreatedAt = 24\<rparr>,
      [\<lparr>ProductID = 1, Quantity = 1, Price = 10\<rparr>,
       \<lparr>ProductID = 2, Quantity = 2, Price = 20\<rparr>],
      None)"
  by (simp add: shop_with_cart_def run_defs)


theorem Checkout_keeps_stock_witness:
  "select_stock 1 (tables shop_with_cart) = Some 4 \<and>
   select_stock 1 (tables (snd (Checkout env0 ''u1'' shop_with_cart))) = Some 4 \<and>
   snd (snd (fst (Checkout env0 ''u1'' shop_with_cart))) = None"
  using Checkout_keeps_stock [of env0 "''u1''" shop_with_cart 1]
  by (simp add: shop_with_cart_tables shop_with_cart_Checkout select_stock_def)

theorem Checkout_empty_cart_witness:
  "cart_lines ''u2'' (tables shop_with_cart) = [] \<and> no_faults env0 \<and>
   snd (snd (fst (Checkout env0 ''u2'' shop_with_cart))) = Some (ErrorsNew ''cart empty'') \<and>
   tables (snd (Checkout env0 ''u2'' shop_with_cart)) = tables shop_with_cart"
proof -
  have e: "cart_lines ''u2'' (tables shop_with_cart) = []"
    by (simp add: shop_with_cart_tables cart_lines_def)
  have c: "Checkout env0 ''u2'' shop_with_cart =
      ((fst (fst (Checkout env0 ''u2'' shop_with_cart)),
        fst (snd (fst (Checkout env0 ''u2'' shop_with_cart))),
        snd (snd (fst (Checkout env0 ''u2'' shop_with_cart)))),
       snd (Checkout env0 ''u2'' shop_with_cart))"
    by simp
  from Checkout_empty_cart [OF e c] e no_faults_env0 show ?thesis by simp
qed


section \<open>Order items are never changed\<close>

lemma order_items_frame [simp]:
  "order_items (AddToCart_tables u p q t) = order_items t"
  "order_items (RemoveFromCart_tables u p q t) = order_items t"
  by (simp_all add: AddToCart_tables_def RemoveFromCart_tables_def)

lemma step_order_items:
  "prefix (order_items (tables s)) (order_items (tables (step env r s)))"
proof (cases r)
  case (ReqCreateProduct name desc price)
  then show ?thesis by (simp add: CreateProduct_def Let_def)
next
  case (ReqAddToCart u p q)
  obtain e s' where R: "AddToCart env u p q s = (e, s')"
    by (cases "AddToCart env u p q s")
  from AddToCart_result [OF R] have "order_items (tables s') = order_items (tables s)"
    by (cases e) auto
  with ReqAddToCart R show ?thesis by simp
next
  case (ReqRemoveFromCart u p)
  obtain e s' where R: "RemoveFromCart env u p s = (e, s')"
    by (cases "RemoveFromCart env u p s")
  from RemoveFromCart_result [OF R] have "order_items (tables s') = order_items (tables s)"
    by (cases e) auto
  with ReqRemoveFromCart R show ?thesis by simp
next
  case (ReqCheckout u)
  obtain ord items e s' where R: "Checkout env u s = ((ord, items, e), s')"
    by (cases "Checkout env u s") auto
  from Checkout_result [OF R] have "prefix (order_items (tables s)) (order_items (tables s'))"
    by (cases e) auto
  with ReqCheckout R show ?thesis by simp
next
  case (ReqUpdateStock p n)
  then show ?thesis by (simp add: UpdateStock_def Let_def)
qed

text \<open>
  Claim C8. Whatever sequence of \<open>CreateProduct\<close>, \<open>AddToCart\<close>, \<open>RemoveFromCart\<close>, \<open>Checkout\<close>
  and \<open>UpdateStock\<close> calls runs on a store, and whichever calls fail, the order item rows
  present before are all present afterwards, at the same positions and unchanged (new rows
  are only appended). So the price recorded on an order item stays what it was, whatever
  happens to the products afterwards.
\<close>
theorem order_items_frozen:
  "prefix (order_items (tables s)) (order_items (tables (run env rs s))) \<and>
   (\<forall>i. i < length (order_items (tables s)) \<longrightarrow>
      order_items (tables (run env rs s)) ! i = order_items (tables s) ! i)"
proof -
  have p: "prefix (order_items (tables s)) (order_items (tables (run env rs s)))"
  proof (induction rs arbitrary: s)
    case Nil
    show ?case by simp
  next
    case (Cons r rs)
    from step_order_items [of s env r] Cons.IH [of "step env r s"]
    show ?case by (auto intro: prefix_order.trans)
  qed
  then show ?thesis by (auto simp: prefix_def nth_append)
qed

theorem order_items_frozen_witness:
  "order_items (tables (snd (Checkout env0 ''u1'' shop_with_cart))) =
     [\<lparr>oi_order_id = 1, oi_product_id = 1, oi_quantity = 1, oi_price = 10\<rparr>,
      \<lparr>oi_order_id = 1, oi_product_id = 2, oi_quantity = 2, oi_price = 20\<rparr>] \<and>
   prefix
     [\<lparr>oi_order_id = 1, oi_product_id = 1, oi_quantity = 1, oi_price = 10\<rparr>,
      \<lparr>oi_order_id = 1, oi_product_id = 2, oi_quantity = 2, oi_price = 20\<rparr>]
     (order_items (tables (run env0
        [ReqCreateProduct ''speaker'' ''new model'' 99, ReqUpdateStock 1 9,
         ReqAddToCart ''u2'' 1 1, ReqCheckout ''u2'', ReqRemoveFromCart ''u1'' 2]
        (snd (Checkout env0 ''u1'' shop_with_cart)))))"
proof -
  have oi: "order_items (tables (snd (Checkout env0 ''u1'' shop_with_cart))) =
     [\<lparr>oi_order_id = 1, oi_product_id = 1, oi_quantity = 1, oi_price = 10\<rparr>,
      \<lparr>oi_order_id = 1, oi_product_id = 2, oi_quantity = 2, oi_price = 20\<rparr>]"
    by (simp add: shop_with_cart_def run_defs)
  show ?thesis
    using order_items_frozen [of "snd (Checkout env0 ''u1'' shop_with_cart)" env0
        "[ReqCreateProduct ''speaker'' ''new model'' 99, ReqUpdateStock 1 9,
          ReqAddToCart ''u2'' 1 1, ReqCheckout ''u2'', ReqRemoveFromCart ''u1'' 2]"]
    by (simp add: oi)
qed

section \<open>Stock conservation\<close>

subsection \<open>Sums over cart items\<close>

lemma sum_insort_key:
  "sum_list (map f (insort_key k x xs)) = f x + sum_list (map f xs)"
  for f :: "'a \<Rightarrow> int"
  by (induction xs) simp_all

lemma sum_sort_key:
  "sum_list (map f (sort_key k xs)) = sum_list (map f xs)"
  for f :: "'a \<Rightarrow> int"
  by (induction xs) (simp_all add: sum_insort_key)

lemma sum_filter_sort_key:
  "sum_list (map f (filter P (sort_key k xs))) = sum_list (map f (filter P xs))"
  for f :: "'a \<Rightarrow> int"
  by (simp add: filter_sort sum_sort_key)

lemma sum_filter_split:
  "sum_list (map f (filter P xs)) =
     sum_list (map f (filter P (filter Q xs))) +
     sum_list (map f (filter P (filter (\<lambda>x. \<not> Q x) xs)))"
  for f :: "'a \<Rightarrow> int"
  by (induction xs) simp_all

lemma cart_key_unique:
  assumes "distinct (map (\<lambda>ci. (ci_cart_id ci, ci_product_id ci)) (a # xs))"
    and "cart_key u p a"
  shows "\<forall>x\<in>set xs. \<not> cart_key u p x"
proof
  fix x assume "x \<in> set xs"
  with assms(1) have "(ci_cart_id x, ci_product_id x) \<noteq> (ci_cart_id a, ci_product_id a)"
    by (auto simp: image_iff)
  with assms(2) show "\<not> cart_key u p x" by (auto simp: cart_key_def)
qed

lemma stock_update_id:
  "p_id \<circ> (\<lambda>r. if p_id r = p then r\<lparr>p_stock := g r\<rparr> else r) = p_id"
  by (auto simp: fun_eq_iff)

lemma quantity_update_key:
  "(\<lambda>ci. (ci_cart_id ci, ci_product_id ci)) \<circ>
     (\<lambda>ci. if cart_key u p ci then ci\<lparr>ci_quantity := g ci\<rparr> else ci) =
   (\<lambda>ci. (ci_cart_id ci, ci_product_id ci))"
  by (auto simp: fun_eq_iff)

lemma sum_upsert_present:
  assumes "distinct (map (\<lambda>ci. (ci_cart_id ci, ci_product_id ci)) xs)"
  shows "sum_list (map ci_quantity (filter (\<lambda>ci. ci_product_id ci = p')
           (map (\<lambda>ci. if cart_key u p ci then ci\<lparr>ci_quantity := ci_quantity ci + q\<rparr> else ci) xs))) =
         sum_list (map ci_quantity (filter (\<lambda>ci. ci_product_id ci = p') xs)) +
           (if p' = p \<and> list_ex (cart_key u p) xs then q else 0)"
  using assms
proof (induction xs)
  case Nil
  show ?case by simp
next
  case (Cons a xs)
  show ?case
  proof (cases "cart_key u p a")
    case True
    with Cons.prems have "\<not> list_ex (cart_key u p) xs"
      using cart_key_unique [of a xs u p] by (simp add: list_ex_iff)
    moreover from True have "ci_product_id a = p" by (simp add: cart_key_def)
    ultimately show ?thesis using Cons True by auto
  next
    case False
    with Cons show ?thesis by auto
  qed
qed

lemma sum_delete_present:
  assumes "distinct (map (\<lambda>ci. (ci_cart_id ci, ci_product_id ci)) xs)"
    and "find (cart_key u p) xs = Some c"
  shows "sum_list (map ci_quantity (filter (\<lambda>ci. ci_product_id ci = p')
           (filter (\<lambda>ci. \<not> cart_key u p ci) xs))) =
         sum_list (map ci_quantity (filter (\<lambda>ci. ci_product_id ci = p') xs)) -
           (if p' = p then ci_quantity c else 0)"
  using assms
proof (induction xs)
  case Nil
  then show ?case by simp
next
  case (Cons a xs)
  show ?case
  proof (cases "cart_key u p a")
    case True
    with Cons.prems have c: "a = c" and "\<forall>x\<in>set xs. \<not> cart_key u p x"
      using cart_key_unique [of a xs u p] by simp_all
    then have "filter (\<lambda>ci. \<not> cart_key u p ci) xs = xs" by simp
    moreover from True have "ci_product_id a = p" by (simp add: cart_key_def)
    ultimately show ?thesis using True c by auto
  next
    case False
    with Cons show ?thesis by auto
  qed
qed

lemma reserved_upsert:
  assumes "schema_ok t"
  shows "reserved (upsert_cart_items u p q t) p' = reserved t p' + (if p' = p then q else 0)"
proof (cases "list_ex (cart_key u p) (cart_items t)")
  case True
  with assms show ?thesis
    by (simp add: reserved_def upsert_cart_items_def sum_upsert_present schema_ok_def)
next
  case False
  then show ?thesis
    by (auto simp: reserved_def upsert_cart_items_def)
qed

lemma reserved_delete:
  assumes "schema_ok t" and "select_quantity u p t = Some q"
  shows "reserved (delete_cart_item u p t) p' = reserved t p' - (if p' = p then q else 0)"
proof -
  from assms(2) obtain c where c: "find (cart_key u p) (cart_items t) = Some c" "ci_quantity c = q"
    by (auto simp: select_quantity_def)
  with assms(1) sum_delete_present [of "cart_items t" u p c p'] show ?thesis
    by (simp add: reserved_def delete_cart_item_def schema_ok_def)
qed

lemma reserved_frame [simp]:
  "reserved (update_stock_add q p t) p' = reserved t p'"
  "reserved (insert_carts u t) p' = reserved t p'"
  by (simp_all add: reserved_def)

lemma ordered_frame [simp]:
  "ordered (AddToCart_tables u p q t) p' = ordered t p'"
  "ordered (RemoveFromCart_tables u p q t) p' = ordered t p'"
  by (simp_all add: ordered_def)

lemma Checkout_moves_reservation:
  assumes "schema_ok t" and "items = map Scan (select_cart_join u t)"
  shows "reserved (Checkout_tables u ord items t) p + ordered (Checkout_tables u ord items t) p =
         reserved t p + ordered t p"
proof -
  let ?mine = "\<lambda>ci. ci_cart_id ci = u"
  let ?P = "\<lambda>ci. ci_product_id ci = p"
  have "map oi_quantity (filter (\<lambda>oi. oi_product_id oi = p) (map (order_item_of (ID ord)) items)) =
        map ci_quantity (filter ?P (sort_key ci_product_id (cart_lines u t)))"
    by (simp add: assms(2) select_cart_join_lines [OF assms(1)] filter_map comp_def
        order_item_of_def Scan_def)
  then have new: "sum_list (map oi_quantity
        (filter (\<lambda>oi. oi_product_id oi = p) (map (order_item_of (ID ord)) items))) =
      sum_list (map ci_quantity (filter ?P (filter ?mine (cart_items t))))"
    by (simp add: sum_filter_sort_key cart_lines_def)
  have split: "reserved t p =
      sum_list (map ci_quantity (filter ?P (filter ?mine (cart_items t)))) +
      sum_list (map ci_quantity (filter ?P (filter (\<lambda>ci. \<not> ?mine ci) (cart_items t))))"
    unfolding reserved_def by (rule sum_filter_split)
  show ?thesis
    using new split by (simp add: reserved_def ordered_def)
qed

subsection \<open>The schema's constraints are kept\<close>

lemma schema_ok_AddToCart_tables:
  assumes "schema_ok t" and "select_stock p t = Some st"
  shows "schema_ok (AddToCart_tables u p q t)"
proof -
  let ?upd = "\<lambda>ci. if cart_key u p ci then ci\<lparr>ci_quantity := ci_quantity ci + q\<rparr> else ci"
  note ids = stock_update_id
  have ex: "list_ex (\<lambda>r. p_id r = p') (map (\<lambda>r. if p_id r = p then r\<lparr>p_stock := p_stock r + - q\<rparr> else r) ps)
      = list_ex (\<lambda>r. p_id r = p') ps" for ps :: "'a products_row list" and p'
    by (induction ps) simp_all
  note keys = quantity_update_key
  have fk: "list_all (\<lambda>ci. list_ex (\<lambda>r. p_id r = ci_product_id ci) ps) (map ?upd cs) =
      list_all (\<lambda>ci. list_ex (\<lambda>r. p_id r = ci_product_id ci) ps) cs"
    for cs and ps :: "'a products_row list"
    by (induction cs) simp_all
  from assms(2) have pex: "list_ex (\<lambda>r. p_id r = p) (products t)"
    by (auto simp: select_stock_def dest: find_Some_list_ex)
  show ?thesis
  proof (cases "list_ex (cart_key u p) (cart_items t)")
    case True
    with assms(1) show ?thesis
      by (simp add: schema_ok_def AddToCart_tables_def update_stock_add_def
          upsert_cart_items_def insert_carts_def ids ex keys fk)
  next
    case False
    then have "(u, p) \<notin> set (map (\<lambda>ci. (ci_cart_id ci, ci_product_id ci)) (cart_items t))"
      by (auto simp: list_ex_iff cart_key_def)
    with False assms(1) pex show ?thesis
      by (simp add: schema_ok_def AddToCart_tables_def update_stock_add_def
          upsert_cart_items_def insert_carts_def ids ex)
  qed
qed

lemma schema_ok_RemoveFromCart_tables:
  assumes "schema_ok t"
  shows "schema_ok (RemoveFromCart_tables u p q t)"
proof -
  note ids = stock_update_id
  have ex: "list_ex (\<lambda>r. p_id r = p') (map (\<lambda>r. if p_id r = p then r\<lparr>p_stock := p_stock r + q\<rparr> else r) ps)
      = list_ex (\<lambda>r. p_id r = p') ps" for ps :: "'a products_row list" and p'
    by (induction ps) simp_all
  from assms show ?thesis
    by (auto simp: schema_ok_def RemoveFromCart_tables_def update_stock_add_def
        delete_cart_item_def ids ex distinct_map_filter list_all_iff)
qed

lemma schema_ok_Checkout_tables:
  assumes "schema_ok t"
  shows "schema_ok (Checkout_tables u ord items t)"
  using assms by (auto simp: schema_ok_def distinct_map_filter list_all_iff)

subsection \<open>Each call conserves the stock\<close>

lemma schema_ok_insert_carts [simp]: "schema_ok (insert_carts u t) = schema_ok t"
  by (simp add: schema_ok_def)

lemma conserve_AddToCart_tables:
  assumes "schema_ok t" and "select_stock p' t = Some st"
  shows "select_stock p' (AddToCart_tables u p q t) =
           Some (st + reserved t p' + ordered t p'
                 - reserved (AddToCart_tables u p q t) p' - ordered (AddToCart_tables u p q t) p')"
proof -
  have "reserved (AddToCart_tables u p q t) p' = reserved t p' + (if p' = p then q else 0)"
    using assms(1) by (simp add: AddToCart_tables_def reserved_upsert)
  with assms(2) show ?thesis
    by (simp add: AddToCart_tables_def select_stock_update_stock_add ordered_def)
qed

lemma conserve_RemoveFromCart_tables:
  assumes "schema_ok t" and "select_quantity u p t = Some q" and "select_stock p' t = Some st"
  shows "select_stock p' (RemoveFromCart_tables u p q t) =
           Some (st + reserved t p' + ordered t p'
                 - reserved (RemoveFromCart_tables u p q t) p'
                 - ordered (RemoveFromCart_tables u p q t) p')"
proof -
  have "reserved (RemoveFromCart_tables u p q t) p' = reserved t p' - (if p' = p then q else 0)"
    using assms(1,2) by (simp add: RemoveFromCart_tables_def reserved_delete)
  with assms(3) show ?thesis
    by (simp add: RemoveFromCart_tables_def select_stock_update_stock_add ordered_def)
qed

lemma conserve_Checkout_tables:
  assumes "schema_ok t" and "items = map Scan (select_cart_join u t)"
    and "select_stock p' t = Some st"
  shows "select_stock p' (Checkout_tables u ord items t) =
           Some (st + reserved t p' + ordered t p'
                 - reserved (Checkout_tables u ord items t) p'
                 - ordered (Checkout_tables u ord items t) p')"
proof -
  have "select_stock p' (Checkout_tables u ord items t) = select_stock p' t"
    by (simp add: select_stock_def)
  with Checkout_moves_reservation [OF assms(1,2), of ord p'] assms(3) show ?thesis
    by simp
qed

lemma step_schema_ok:
  assumes "schema_ok (tables s)" and "cart_request r"
  shows "schema_ok (tables (step env r s))"
proof (cases r)
  case (ReqAddToCart u p q)
  obtain e s' where R: "AddToCart env u p q s = (e, s')"
    by (cases "AddToCart env u p q s")
  from AddToCart_result [OF R] assms(1) have "schema_ok (tables s')"
    by (cases e) (auto simp: schema_ok_AddToCart_tables)
  with ReqAddToCart R show ?thesis by simp
next
  case (ReqRemoveFromCart u p)
  obtain e s' where R: "RemoveFromCart env u p s = (e, s')"
    by (cases "RemoveFromCart env u p s")
  from RemoveFromCart_result [OF R] assms(1) have "schema_ok (tables s')"
    by (cases e) (auto simp: schema_ok_RemoveFromCart_tables)
  with ReqRemoveFromCart R show ?thesis by simp
next
  case (ReqCheckout u)
  obtain ord items e s' where R: "Checkout env u s = ((ord, items, e), s')"
    by (cases "Checkout env u s") auto
  from Checkout_result [OF R] assms(1) have "schema_ok (tables s')"
    by (cases e) (auto simp: schema_ok_Checkout_tables)
  with ReqCheckout R show ?thesis by simp
next
  case (ReqCreateProduct name desc price)
  with assms(2) show ?thesis by simp
next
  case (ReqUpdateStock p n)
  with assms(2) show ?thesis by simp
qed

text \<open>The log only grows, so a failed \<open>rows.Next()\<close> stays in it.\<close>

lemma AddToCart_calls:
  "set (calls s) \<subseteq> set (calls (snd (AddToCart env u p q s)))"
  by (auto simp: AddToCart_def Begin_def Exec_def QueryRow_def Commit_def
      split: option.splits)

lemma RemoveFromCart_calls:
  "set (calls s) \<subseteq> set (calls (snd (RemoveFromCart env u p s)))"
  by (auto simp: RemoveFromCart_def Begin_def Exec_def QueryRow_def Commit_def
      split: option.splits)

lemma step_calls:
  "set (calls s) \<subseteq> set (calls (step env r s))"
proof (cases r)
  case (ReqCheckout u)
  obtain ord items e s' where R: "Checkout env u s = ((ord, items, e), s')"
    by (cases "Checkout env u s") auto
  from Checkout_result [OF R] have "set (calls s) \<subseteq> set (calls s')" by simp
  with ReqCheckout R show ?thesis by simp
next
  case (ReqAddToCart u p q)
  with AddToCart_calls [of s env u p q] show ?thesis by simp
next
  case (ReqRemoveFromCart u p)
  with RemoveFromCart_calls [of s env u p] show ?thesis by simp
next
  case (ReqCreateProduct name desc price)
  then show ?thesis by (auto simp: CreateProduct_def Let_def)
next
  case (ReqUpdateStock p n)
  then show ?thesis by (auto simp: UpdateStock_def Let_def)
qed

lemma run_calls:
  "set (calls s) \<subseteq> set (calls (run env rs s))"
proof (induction rs arbitrary: s)
  case Nil
  show ?case by simp
next
  case (Cons r rs)
  from step_calls [of s env r] Cons [of "step env r s"] show ?case by auto
qed

lemma step_conserves:
  assumes "schema_ok (tables s)" and "cart_request r"
    and "EvNextErr \<notin> set (calls (step env r s))"
    and "select_stock p (tables s) = Some stock"
  shows "select_stock p (tables (step env r s)) =
           Some (stock + reserved (tables s) p + ordered (tables s) p
                 - reserved (tables (step env r s)) p - ordered (tables (step env r s)) p)"
proof (cases r)
  case (ReqAddToCart u p' q)
  obtain e s' where R: "AddToCart env u p' q s = (e, s')"
    by (cases "AddToCart env u p' q s")
  note res = AddToCart_result [OF R]
  show ?thesis
  proof (cases e)
    case None
    with res have "tables s' = AddToCart_tables u p' q (tables s)" by auto
    with assms(1,4) ReqAddToCart R show ?thesis
      by (simp add: conserve_AddToCart_tables)
  next
    case (Some err)
    with res have "tables s' = tables s" by simp
    with assms(4) ReqAddToCart R show ?thesis by simp
  qed
next
  case (ReqRemoveFromCart u p')
  obtain e s' where R: "RemoveFromCart env u p' s = (e, s')"
    by (cases "RemoveFromCart env u p' s")
  note res = RemoveFromCart_result [OF R]
  show ?thesis
  proof (cases e)
    case None
    with res obtain q where "select_quantity u p' (tables s) = Some q"
      and "tables s' = RemoveFromCart_tables u p' q (tables s)" by auto
    with assms(1,4) ReqRemoveFromCart R show ?thesis
      by (simp add: conserve_RemoveFromCart_tables)
  next
    case (Some err)
    with res have "tables s' = tables s" by simp
    with assms(4) ReqRemoveFromCart R show ?thesis by simp
  qed
next
  case (ReqCheckout u)
  obtain ord items e s' where R: "Checkout env u s = ((ord, items, e), s')"
    by (cases "Checkout env u s") auto
  note res = Checkout_result [OF R]
  from assms(3) ReqCheckout R have clean: "EvNextErr \<notin> set (calls s')" by simp
  show ?thesis
  proof (cases e)
    case None
    with res clean have "items = map Scan (select_cart_join u (tables s))"
      and "tables s' = Checkout_tables u ord items (tables s)" by auto
    with assms(1,4) ReqCheckout R show ?thesis
      by (simp add: conserve_Checkout_tables)
  next
    case (Some err)
    with res have "tables s' = tables s" by simp
    with assms(4) ReqCheckout R show ?thesis by simp
  qed
next
  case (ReqCreateProduct name desc price)
  with assms(2) show ?thesis by simp
next
  case (ReqUpdateStock p' n)
  with assms(2) show ?thesis by simp
qed

text \<open>
  Claim C1, amended. Under the schema's constraints, after any sequence of \<open>AddToCart\<close>,
  \<open>RemoveFromCart\<close> and \<open>Checkout\<close> calls in which no \<open>rows.Next()\<close> has failed (any other
  call may fail), the stock of every product is its stock before the sequence, plus the
  quantities that cart items and order items held for it before, minus the quantities
  that cart items and order items hold for it now. Starting without cart items and order
  items: stock = initial stock - quantity in cart items - quantity in order items.
  \<open>Checkout\<close> moves a reservation from the cart items to the order items and does not
  give the stock back.
\<close>
theorem stock_conservation:
  assumes "schema_ok (tables s)" and "list_all cart_request rs"
    and "select_stock p (tables s) = Some stock"
    and "EvNextErr \<notin> set (calls (run env rs s))"
  shows "select_stock p (tables (run env rs s)) =
           Some (stock + reserved (tables s) p + ordered (tables s) p
                 - reserved (tables (run env rs s)) p - ordered (tables (run env rs s)) p)"
  using assms
proof (induction rs arbitrary: s stock)
  case Nil
  then show ?case by simp
next
  case (Cons r rs)
  let ?s1 = "step env r s"
  from Cons.prems have r: "cart_request r" and rs: "list_all cart_request rs"
    and all: "EvNextErr \<notin> set (calls (run env rs ?s1))" by simp_all
  from all run_calls [of ?s1 env rs] have clean: "EvNextErr \<notin> set (calls ?s1)" by auto
  have ok: "schema_ok (tables ?s1)"
    using Cons.prems(1) r by (rule step_schema_ok)
  have st: "select_stock p (tables ?s1) =
      Some (stock + reserved (tables s) p + ordered (tables s) p
            - reserved (tables ?s1) p - ordered (tables ?s1) p)"
    using Cons.prems(1) r clean Cons.prems(3) by (rule step_conserves)
  from Cons.IH [OF ok rs st all] show ?case by simp
qed

text \<open>
  Claim C1 as stated (stock = initial stock - quantity in cart items) fails after a
  checkout: with stock 5, after \<open>AddToCart\<close> of 2 and \<open>Checkout\<close>, no cart item is left and
  the stock is 3, not 5.
\<close>

theorem stock_conservation_counterexample:
  "list_all cart_request [ReqAddToCart ''u1'' 1 2, ReqCheckout ''u1''] \<and>
   select_stock 1 (tables shop) = Some 5 \<and>
   reserved (tables (run env0 [ReqAddToCart ''u1'' 1 2, ReqCheckout ''u1''] shop)) 1 = 0 \<and>
   select_stock 1 (tables (run env0 [ReqAddToCart ''u1'' 1 2, ReqCheckout ''u1''] shop)) \<noteq>
     Some (5 - reserved (tables (run env0 [ReqAddToCart ''u1'' 1 2, ReqCheckout ''u1''] shop)) 1)"
  by (simp add: run_defs reserved_def)

theorem stock_conservation_witness:
  "schema_ok (tables shop) \<and>
   list_all cart_request [ReqAddToCart ''u1'' 1 2, ReqCheckout ''u1'', ReqAddToCart ''u2'' 1 1] \<and>
   select_stock 1 (tables shop) = Some 5 \<and>
   EvNextErr \<notin> set (calls (run env0
      [ReqAddToCart ''u1'' 1 2, ReqCheckout ''u1'', ReqAddToCart ''u2'' 1 1] shop)) \<and>
   reserved (tables shop) 1 = 0 \<and> ordered (tables shop) 1 = 0 \<and>
   reserved (tables (run env0
      [ReqAddToCart ''u1'' 1 2, ReqCheckout ''u1'', ReqAddToCart ''u2'' 1 1] shop)) 1 = 1 \<and>
   ordered (tables (run env0
      [ReqAddToCart ''u1'' 1 2, ReqCheckout ''u1'', ReqAddToCart ''u2'' 1 1] shop)) 1 = 2 \<and>
   select_stock 1 (tables (run env0
      [ReqAddToCart ''u1'' 1 2, ReqCheckout ''u1'', ReqAddToCart ''u2'' 1 1] shop)) = Some 2"
proof -
  let ?rs = "[ReqAddToCart ''u1'' 1 2, ReqCheckout ''u1'', ReqAddToCart ''u2'' 1 1]"
  have ok: "schema_ok (tables shop)" by (simp add: shop_def schema_ok_def)
  have rs: "list_all cart_request ?rs" by simp
  have st: "select_stock 1 (tables shop) = Some 5" by (simp add: shop_def select_stock_def)
  have clean: "EvNextErr \<notin> set (calls (run env0 ?rs shop))"
    by (simp add: run_defs)
  have z: "reserved (tables shop) 1 = 0" "ordered (tables shop) 1 = 0"
    by (simp_all add: shop_def reserved_def ordered_def)
  have a: "reserved (tables (run env0 ?rs shop)) 1 = 1" "ordered (tables (run env0 ?rs shop)) 1 = 2"
    by (simp_all add: run_defs reserved_def ordered_def)
  from stock_conservation [OF ok rs st clean] ok rs st clean z a show ?thesis by simp
qed

text \<open>
  The hypothesis on \<open>rows.Next()\<close> is needed. \<open>Checkout\<close> reads the rows without ever
  reading \<open>rows.Err()\<close>: when the fetch of the second of two rows fails, it writes an order
  with the first item only, deletes both cart items and commits. Here product 2 had 2
  units in the cart and 1 in stock; afterwards it has 1 in stock, none in the cart and
  none in an order.
\<close>

lemma Checkout_unchecked_rows_err:
  "fst (Checkout env_next_fails ''u1'' shop_with_cart) =
     (\<lparr>ID = 1, UserID = ''u1'', Total = 10, CreatedAt = 22\<rparr>,
      [\<lparr>ProductID = 1, Quantity = 1, Price = 10\<rparr>], None) \<and>
   EvNextErr \<in> set (calls (snd (Checkout env_next_fails ''u1'' shop_with_cart))) \<and>
   cart_items (tables (snd (Checkout env_next_fails ''u1'' shop_with_cart))) = [] \<and>
   select_stock 2 (tables shop_with_cart) = Some 1 \<and>
   reserved (tables shop_with_cart) 2 = 2 \<and> ordered (tables shop_with_cart) 2 = 0 \<and>
   select_stock 2 (tables (snd (Checkout env_next_fails ''u1'' shop_with_cart))) = Some 1 \<and>
   reserved (tables (snd (Checkout env_next_fails ''u1'' shop_with_cart))) 2 = 0 \<and>
   ordered (tables (snd (Checkout env_next_fails ''u1'' shop_with_cart))) 2 = 0"
  by (simp add: env_next_fails_def shop_with_cart_def run_defs reserved_def ordered_def)

section \<open>The schema's constraints hold in every reachable store\<close>

lemma product_ids_AddToCart_tables [simp]:
  "map p_id (products (AddToCart_tables u p q t)) = map p_id (products t)"
  by (simp add: AddToCart_tables_def update_stock_add_def stock_update_id)

lemma product_ids_RemoveFromCart_tables [simp]:
  "map p_id (products (RemoveFromCart_tables u p q t)) = map p_id (products t)"
  by (simp add: RemoveFromCart_tables_def update_stock_add_def stock_update_id)

lemma step_product_ids:
  assumes "cart_request r"
  shows "map p_id (products (tables (step env r s))) = map p_id (products (tables s)) \<and>
         products_id_seq (step env r s) = products_id_seq s"
proof (cases r)
  case (ReqAddToCart u p q)
  obtain e s' where R: "AddToCart env u p q s = (e, s')"
    by (cases "AddToCart env u p q s")
  from AddToCart_result [OF R] ReqAddToCart R show ?thesis by (cases e) auto
next
  case (ReqRemoveFromCart u p)
  obtain e s' where R: "RemoveFromCart env u p s = (e, s')"
    by (cases "RemoveFromCart env u p s")
  from RemoveFromCart_result [OF R] ReqRemoveFromCart R show ?thesis by (cases e) auto
next
  case (ReqCheckout u)
  obtain ord items e s' where R: "Checkout env u s = ((ord, items, e), s')"
    by (cases "Checkout env u s") auto
  from Checkout_result [OF R] ReqCheckout R show ?thesis by (cases e) auto
next
  case (ReqCreateProduct name desc price)
  with assms show ?thesis by simp
next
  case (ReqUpdateStock p n)
  with assms show ?thesis by simp
qed

lemma list_all_ids:
  "list_all (\<lambda>p. p_id p \<le> n) ps \<longleftrightarrow> (\<forall>i\<in>set (map p_id ps). i \<le> n)"
  by (auto simp: list_all_iff)

lemma list_ex_stock_update:
  "list_ex (\<lambda>r. p_id r = p') (map (\<lambda>r. if p_id r = p then r\<lparr>p_stock := g r\<rparr> else r) ps) =
   list_ex (\<lambda>r. p_id r = p') ps"
  by (induction ps) simp_all

lemma list_all_stock_update:
  "list_all (\<lambda>r. p_id r \<le> n) (map (\<lambda>r. if p_id r = p then r\<lparr>p_stock := g r\<rparr> else r) ps) =
   list_all (\<lambda>r. p_id r \<le> n) ps"
  by (induction ps) simp_all

lemma step_store_ok:
  assumes "store_ok s"
  shows "store_ok (step env r s)"
proof (cases "cart_request r")
  case True
  from assms have ok: "schema_ok (tables s)" by (simp add: store_ok_def)
  from step_schema_ok [OF ok True, of env] step_product_ids [OF True, of env s] assms
  show ?thesis by (simp add: store_ok_def list_all_ids)
next
  case False
  then show ?thesis
  proof (cases r)
    case (ReqCreateProduct name desc price)
    from assms have "products_id_seq s + 1 \<notin> p_id ` set (products (tables s))"
      by (fastforce simp: store_ok_def list_all_iff)
    with assms ReqCreateProduct show ?thesis
      by (auto simp: store_ok_def schema_ok_def CreateProduct_def Let_def list_all_iff
          list_ex_iff)
  next
    case (ReqUpdateStock p n)
    with assms show ?thesis
      by (simp add: store_ok_def schema_ok_def UpdateStock_def Let_def list_all_stock_update
          list_ex_stock_update stock_update_id)
  qed simp_all
qed

lemma run_store_ok:
  assumes "store_ok s"
  shows "store_ok (run env rs s)"
  using assms by (induction rs arbitrary: s) (simp_all add: step_store_ok)

lemma store_ok_shop: "store_ok shop"
  by (simp add: store_ok_def schema_ok_def shop_def)

section \<open>The total in exact arithmetic\<close>

text \<open>When the arithmetic of the environment is that of a semiring, the loop's total is
  the sum of \<open>quantity * price\<close> over the items.\<close>

lemma add_line_exact:
  fixes env :: "'a::semiring_0 env"
  assumes "float64_add env = (+)" and "float64_mul env = (*)"
  shows "foldl (add_line env) tot items =
           tot + sum_list (map (\<lambda>it. float64_of_int env (Quantity it) * Price it) items)"
  using assms by (induction items arbitrary: tot) (simp_all add: add_line_def add.assoc)

end
